theory Spec2Isabelle
  imports Main "HOL-Library.Word" "HOL-Library.Monad_Syntax"
begin

unbundle bit_operations_syntax

section \<open>Bytes, C strings and the packet buffer\<close>

text \<open>
  The model of \<^verbatim>\<open>networking/dnsd.c\<close>. A \<^verbatim>\<open>char\<close> or \<^verbatim>\<open>uint8_t\<close>
  array is a list of bytes. The string an array holds ends at its first NUL byte; every
  array the program builds is NUL-terminated, and the string functions below read the end
  of the list as that terminator.
\<close>

type_synonym byte = "8 word"

definition cstr :: "byte list \<Rightarrow> byte list" where
  "cstr s = takeWhile (\<lambda>c. c \<noteq> 0) s"

definition strlen :: "byte list \<Rightarrow> nat" where
  "strlen s = length (cstr s)"

text \<open>\<^verbatim>\<open>tolower\<close> of the C locale: only the ASCII capitals change.\<close>

definition tolower :: "byte \<Rightarrow> byte" where
  "tolower c = (if 0x41 \<le> c \<and> c \<le> 0x5A then c + 0x20 else c)"

text \<open>
  \<^verbatim>\<open>strcasecmp\<close> and \<^verbatim>\<open>strncmp\<close> of libc: the difference of the first pair of
  bytes that differ, 0 when the strings end together (or, for \<^verbatim>\<open>strncmp\<close>, when
  \<open>n\<close> bytes were equal).
\<close>

fun strcasecmp :: "byte list \<Rightarrow> byte list \<Rightarrow> int" where
  "strcasecmp (a # s1) (b # s2) =
     (if tolower a \<noteq> tolower b \<or> a = 0 then uint (tolower a) - uint (tolower b)
      else strcasecmp s1 s2)"
| "strcasecmp [] (b # s2) = - uint (tolower b)"
| "strcasecmp (a # s1) [] = uint (tolower a)"
| "strcasecmp [] [] = 0"

fun strncmp :: "byte list \<Rightarrow> byte list \<Rightarrow> nat \<Rightarrow> int" where
  "strncmp s1 s2 0 = 0"
| "strncmp (a # s1) (b # s2) (Suc n) =
     (if a \<noteq> b \<or> a = 0 then uint a - uint b else strncmp s1 s2 n)"
| "strncmp [] (b # s2) (Suc n) = - uint b"
| "strncmp (a # s1) [] (Suc n) = uint a"
| "strncmp [] [] (Suc n) = 0"

text \<open>
  A 16-bit or 32-bit field that the program keeps in network byte order is modelled by
  the number its bytes spell, most significant byte first: \<open>get16 m a\<close> is
  \<^verbatim>\<open>ntohs\<close> of the \<^verbatim>\<open>uint16_t\<close> at offset \<open>a\<close>. The program only compares such
  fields with \<^verbatim>\<open>htons\<close> constants and combines them bitwise with \<^verbatim>\<open>htons\<close>
  constants, and both commute with the byte swap, so \<^verbatim>\<open>head->flags & htons(0x8000)\<close>
  is nonzero exactly when \<open>get16 buf 2 AND 0x8000\<close> is, on either byte order.
\<close>

definition be16 :: "16 word \<Rightarrow> byte list" where
  "be16 w = [ucast (drop_bit 8 w), ucast w]"

definition be32 :: "32 word \<Rightarrow> byte list" where
  "be32 w = [ucast (drop_bit 24 w), ucast (drop_bit 16 w), ucast (drop_bit 8 w), ucast w]"

definition get16 :: "byte list \<Rightarrow> nat \<Rightarrow> 16 word" where
  "get16 m a = push_bit 8 (ucast (m ! a)) OR ucast (m ! (a + 1))"

text \<open>
  Writing outside an array is undefined behaviour in C: the model's result is then
  \<open>None\<close>. \<open>memcpy\<close> is also undefined when source and destination overlap.
\<close>

definition store :: "byte list \<Rightarrow> nat \<Rightarrow> byte list \<Rightarrow> byte list option" where
  "store m a bs =
     (if a + length bs \<le> length m then Some (take a m @ bs @ drop (a + length bs) m)
      else None)"

definition put16 :: "byte list \<Rightarrow> nat \<Rightarrow> 16 word \<Rightarrow> byte list option" where
  "put16 m a w = store m a (be16 w)"

definition memcpy :: "byte list \<Rightarrow> nat \<Rightarrow> nat \<Rightarrow> nat \<Rightarrow> byte list option" where
  "memcpy m dst src n =
     (if src + n \<le> length m \<and> (src + n \<le> dst \<or> dst + n \<le> src)
      then store m dst (take n (drop src m)) else None)"

text \<open>\<open>memcpy\<close> into the buffer from another array, of which \<open>src\<close> is the initialised part.\<close>

definition memcpy_from :: "byte list \<Rightarrow> nat \<Rightarrow> byte list \<Rightarrow> nat \<Rightarrow> byte list option" where
  "memcpy_from m dst src n = (if n \<le> length src then store m dst (take n src) else None)"

text \<open>\<^verbatim>\<open>strlen\<close> of the string that starts at offset \<open>a\<close> of the buffer.\<close>

definition strlen_at :: "byte list \<Rightarrow> nat \<Rightarrow> nat option" where
  "strlen_at m a = (if 0 \<in> set (drop a m) then Some (strlen (drop a m)) else None)"

section \<open>Constants and the target platform\<close>

definition DEFAULT_TTL :: "32 word" where "DEFAULT_TTL = 120"
definition MAX_PACK_LEN :: nat where "MAX_PACK_LEN = 512"
definition IP_STRING_LEN :: nat where "IP_STRING_LEN = 17"
definition MAX_NAME_LEN :: nat where "MAX_NAME_LEN = IP_STRING_LEN - 1 + 14"
definition REQ_A :: "16 word" where "REQ_A = 1"
definition REQ_PTR :: "16 word" where "REQ_PTR = 12"

text \<open>
  Two facts of the target decide what \<^verbatim>\<open>process_packet\<close> writes: \<open>sizeof_ptr\<close> is
  \<^verbatim>\<open>sizeof(unaligned_qprop)\<close>, the size of a pointer, and \<open>big_endian\<close> is the
  host's byte order, which the 32-bit store of the 16-bit \<^verbatim>\<open>htons(outr_rlen)\<close>
  depends on.
\<close>

record platform =
  sizeof_ptr :: nat
  big_endian :: bool

section \<open>The record table\<close>

text \<open>
  \<open>ip\<close> is the address \<^verbatim>\<open>m->ip\<close> holds in network order (\<open>be32 (ip d)\<close> are its
  bytes in memory), \<open>rip\<close> and \<open>name\<close> are the two \<^verbatim>\<open>char\<close> arrays.
\<close>

record dns_entry =
  ip :: "32 word"
  rip :: "byte list"
  name :: "byte list"

text \<open>
  The loop of \<^verbatim>\<open>undot\<close> walks the string from its last byte to its first; the
  recursion returns from the end of the list in the same order. The second component is
  \<^verbatim>\<open>s\<close>, the bytes seen since the last dot; the assignment to a \<^verbatim>\<open>char\<close> keeps
  its low 8 bits.
\<close>

fun undot_loop :: "byte list \<Rightarrow> byte list \<times> nat" where
  "undot_loop [] = ([], 0)"
| "undot_loop (c # cs) =
     (case undot_loop cs of (r, s) \<Rightarrow>
        if c = 0x2E then (of_nat s # r, 0) else (c # r, Suc s))"

definition undot :: "byte list \<Rightarrow> byte list" where
  "undot str = (let i = strlen str in fst (undot_loop (take i str)) @ drop i str)"

text \<open>\<^verbatim>\<open>%u\<close> of \<^verbatim>\<open>sprintf\<close>: the decimal digits of an unsigned number.\<close>

fun utoa :: "nat \<Rightarrow> byte list" where
  "utoa n = (if n < 10 then [of_nat (48 + n)] else utoa (n div 10) @ [of_nat (48 + n mod 10)])"

declare utoa.simps [simp del]

definition sprintf_rip :: "32 word \<Rightarrow> byte list" where
  "sprintf_rip v32 =
     0x2E # utoa (unat (ucast v32 :: byte)) @
     0x2E # utoa (unat (ucast (drop_bit 8 v32) :: byte)) @
     0x2E # utoa (unat (ucast (drop_bit 16 v32) :: byte)) @
     0x2E # utoa (unat (drop_bit 24 v32))"

text \<open>
  One configuration line that \<^verbatim>\<open>inet_aton\<close> accepted: the name array holds a dot,
  the token and the terminator; \<^verbatim>\<open>rip\<close> is the zeroed array of \<open>IP_STRING_LEN\<close>
  bytes that \<^verbatim>\<open>sprintf\<close> filled.
\<close>

definition new_entry :: "byte list \<Rightarrow> 32 word \<Rightarrow> dns_entry" where
  "new_entry token0 v32 =
     \<lparr> ip = v32,
       rip = undot (sprintf_rip v32 @ replicate (IP_STRING_LEN - length (sprintf_rip v32)) 0),
       name = undot (0x2E # token0 @ [0]) \<rparr>"


text \<open>
  \<^verbatim>\<open>table_lookup\<close>. The destination \<^verbatim>\<open>as\<close> is modelled by \<open>cap\<close>, the size of the
  array it points to; the result is the return value and the bytes written to
  \<^verbatim>\<open>as\<close>, or \<open>None\<close> when the write runs past the array. \<open>byte_at s i\<close> is
  \<^verbatim>\<open>s[i]\<close> for \<open>i\<close> up to the terminator.
\<close>

definition byte_at :: "byte list \<Rightarrow> nat \<Rightarrow> byte" where
  "byte_at s i = (if i < length s then s ! i else 0)"

fun table_lookup :: "nat \<Rightarrow> dns_entry list \<Rightarrow> 16 word \<Rightarrow> byte list \<Rightarrow> (int \<times> byte list) option" where
  "table_lookup cap [] type qs = Some (- 1, [])"
| "table_lookup cap (d # next) type qs =
     (let len = byte_at (name d) 0 in
      if type = REQ_A then
        (if (len \<noteq> 1 \<or> byte_at (name d) 1 \<noteq> 0x2A) \<and> strcasecmp (name d) qs \<noteq> 0
         then table_lookup cap next type qs
         else if 4 \<le> cap then Some (0, be32 (ip d)) else None)
      else if (len \<noteq> 1 \<or> byte_at (name d) 1 \<noteq> 0x2A)
            \<and> strncmp (rip d) qs (strlen (rip d)) = 0
      then (if strlen (name d) + 1 \<le> cap then Some (0, cstr (name d) @ [0]) else None)
      else table_lookup cap next type qs)"

section \<open>The packet processor\<close>

text \<open>The code after the label \<^verbatim>\<open>empty_packet\<close>.\<close>

definition empty_packet :: "byte list \<Rightarrow> 16 word \<Rightarrow> nat \<Rightarrow> (int \<times> byte list) option" where
  "empty_packet buf outr_flags answb = do {
     buf \<leftarrow> put16 buf 2 (get16 buf 2 OR outr_flags);
     buf \<leftarrow> put16 buf 10 0;
     buf \<leftarrow> put16 buf 8 0;
     buf \<leftarrow> put16 buf 4 1;
     Some (int answb, buf)
   }"

text \<open>
  The 32-bit store of the 16-bit value \<^verbatim>\<open>htons(outr_rlen)\<close>: the value is widened
  with zeros and stored in host order, so its two bytes come first on a little-endian
  host and last on a big-endian one.
\<close>

definition store32_of_htons :: "platform \<Rightarrow> 16 word \<Rightarrow> byte list" where
  "store32_of_htons pf w = (if big_endian pf then [0, 0] @ be16 w else be16 w @ [0, 0])"

text \<open>
  \<^verbatim>\<open>process_packet\<close>: \<open>None\<close> is undefined behaviour, \<open>Some (r, buf')\<close> the return
  value and the buffer afterwards. Offsets into \<^verbatim>\<open>buf\<close> stand for the pointers
  \<^verbatim>\<open>from\<close> (12), \<^verbatim>\<open>unaligned_qprop\<close> and \<^verbatim>\<open>answb\<close>.
\<close>

definition process_packet :: "platform \<Rightarrow> dns_entry list \<Rightarrow> 32 word \<Rightarrow> byte list \<Rightarrow> (int \<times> byte list) option" where
  "process_packet pf conf_data conf_ttl buf =
     (if length buf < 12 then None
      else if get16 buf 4 = 0 then Some (- 1, buf)
      else if get16 buf 2 AND 0x8000 \<noteq> 0 then Some (- 1, buf)
      else do {
        n \<leftarrow> strlen_at buf 12;
        let querystr_len = n + 1;
        let unaligned_qprop = 12 + querystr_len;
        let answb = unaligned_qprop + 4;
        if length buf < answb then None
        else if get16 buf unaligned_qprop \<noteq> REQ_A \<and> get16 buf unaligned_qprop \<noteq> REQ_PTR
          then empty_packet buf (0x8000 OR 4) answb
        else if get16 buf (unaligned_qprop + 2) \<noteq> 1 then empty_packet buf (0x8000 OR 4) answb
        else if get16 buf 2 AND 0x7800 \<noteq> 0 then empty_packet buf (0x8000 OR 4) answb
        else do {
          (rc, answstr) \<leftarrow> table_lookup (MAX_NAME_LEN + 1) conf_data (get16 buf unaligned_qprop) (drop 12 buf);
          if rc \<noteq> 0 then empty_packet buf (0x8000 OR 0x0400 OR 3) answb
          else do {
            let outr_rlen = (if get16 buf unaligned_qprop = REQ_PTR then strlen answstr + 1 else 4);
            buf \<leftarrow> put16 buf 6 1;
            let querystr_len = querystr_len + sizeof_ptr pf;
            buf \<leftarrow> memcpy buf answb 12 querystr_len;
            let answb = answb + querystr_len;
            buf \<leftarrow> store buf answb (be32 conf_ttl);
            let answb = answb + 4;
            buf \<leftarrow> store buf answb (store32_of_htons pf (of_nat outr_rlen));
            let answb = answb + 2;
            buf \<leftarrow> memcpy_from buf answb answstr outr_rlen;
            let answb = answb + outr_rlen;
            empty_packet buf (0x8000 OR 0x0400 OR 0) answb
          }
        }
      })"

section \<open>Notions the properties are stated in\<close>

text \<open>
  The test \<^verbatim>\<open>len != 1 || d->name[1] != '*'\<close> of \<^verbatim>\<open>table_lookup\<close> fails exactly for
  an entry whose name starts with the one-byte label \<^verbatim>\<open>*\<close>.
\<close>

definition wildcard :: "dns_entry \<Rightarrow> bool" where
  "wildcard d = (byte_at (name d) 0 = 1 \<and> byte_at (name d) 1 = 0x2A)"

text \<open>When the scan of \<^verbatim>\<open>table_lookup\<close> stops at an entry, and what it then copies.\<close>

definition matches :: "16 word \<Rightarrow> byte list \<Rightarrow> dns_entry \<Rightarrow> bool" where
  "matches type qs d =
     (if type = REQ_A then wildcard d \<or> strcasecmp (name d) qs = 0
      else \<not> wildcard d \<and> strncmp (rip d) qs (strlen (rip d)) = 0)"

definition rdata_of :: "16 word \<Rightarrow> dns_entry \<Rightarrow> byte list" where
  "rdata_of type d = (if type = REQ_A then be32 (ip d) else cstr (name d) @ [0])"

text \<open>
  The wire encoding of a dotted name after RFC 1035, which the file quotes: each label
  is a length octet and that many octets, labels have at most 63 octets, and a zero
  octet ends the name. \<open>labels\<close> cuts a dotted name at its dots.
\<close>

fun labels :: "byte list \<Rightarrow> byte list list" where
  "labels [] = [[]]"
| "labels (c # cs) =
     (if c = 0x2E then [] # labels cs
      else (case labels cs of [] \<Rightarrow> [[c]] | l # ls \<Rightarrow> (c # l) # ls))"

definition wire_label :: "byte list \<Rightarrow> byte list" where
  "wire_label l = of_nat (length l) # l"

definition wire_name :: "byte list \<Rightarrow> byte list option" where
  "wire_name dotted =
     (if list_all (\<lambda>l. length l \<le> 63) (labels dotted)
      then Some (concat (map wire_label (labels dotted)) @ [0]) else None)"

text \<open>
  The keys of the two lookups in the words of the specification: an entry's name begins
  with the one-byte label \<^verbatim>\<open>*\<close>; the query name equals the entry's name when
  case is ignored; the entry's reversed-address string is a prefix of the query name.
\<close>

definition first_label_star :: "dns_entry \<Rightarrow> bool" where
  "first_label_star d = (take 2 (name d) = [1, 0x2A])"

definition name_equal :: "byte list \<Rightarrow> dns_entry \<Rightarrow> bool" where
  "name_equal qs d = (map tolower (cstr (name d)) = map tolower (cstr qs))"

definition rip_prefix :: "byte list \<Rightarrow> dns_entry \<Rightarrow> bool" where
  "rip_prefix qs d = (take (length (cstr (rip d))) (cstr qs) = cstr (rip d))"

text \<open>
  The stores of \<^verbatim>\<open>process_packet\<close> after a successful lookup, as one chain:
  \<open>n\<close> is the length of the question name, \<open>rl\<close> is \<^verbatim>\<open>outr_rlen\<close>
  (lemma \<open>process_packet_hit_chain\<close> below shows that this is what the function runs).
\<close>

definition answer_chain :: "platform \<Rightarrow> 32 word \<Rightarrow> byte list \<Rightarrow> nat \<Rightarrow> byte list \<Rightarrow> nat \<Rightarrow> (int \<times> byte list) option" where
  "answer_chain pf conf_ttl buf n answstr rl =
     put16 buf 6 1 \<bind> (\<lambda>b1.
     memcpy b1 (17 + n) 12 (n + 1 + sizeof_ptr pf) \<bind> (\<lambda>b2.
     store b2 (17 + n + (n + 1 + sizeof_ptr pf)) (be32 conf_ttl) \<bind> (\<lambda>b3.
     store b3 (17 + n + (n + 1 + sizeof_ptr pf) + 4) (store32_of_htons pf (of_nat rl)) \<bind> (\<lambda>b4.
     memcpy_from b4 (17 + n + (n + 1 + sizeof_ptr pf) + 4 + 2) answstr rl \<bind> (\<lambda>b5.
     empty_packet b5 0x8400 (17 + n + (n + 1 + sizeof_ptr pf) + 4 + 2 + rl))))))"

text \<open>
  What \<^verbatim>\<open>dnsd_main\<close> guarantees before it calls \<^verbatim>\<open>process_packet\<close>: the buffer
  has \<open>BUF_SIZE\<close> bytes, \<open>r\<close> of them received, and the byte after them is set to NUL.
\<close>

definition BUF_SIZE :: nat where
  "BUF_SIZE = MAX_PACK_LEN * 2 + 4 + 2 + (MAX_NAME_LEN + 1)"

definition received :: "byte list \<Rightarrow> nat \<Rightarrow> bool" where
  "received buf r = (length buf = BUF_SIZE \<and> 12 \<le> r \<and> r \<le> MAX_PACK_LEN \<and> buf ! r = 0)"

subsection \<open>Example data\<close>

text \<open>
  The names \<^verbatim>\<open>foo.example.com\<close>, \<^verbatim>\<open>bar\<close> and \<^verbatim>\<open>*\<close> as configuration tokens,
  table entries built from them, and the question names \<^verbatim>\<open>foo.example.com\<close>,
  \<^verbatim>\<open>FOO.example.com\<close> and \<^verbatim>\<open>1.0.0.10.in-addr.arpa\<close> as they travel.
\<close>

definition tok_foo :: "byte list" where
  "tok_foo = [0x66, 0x6F, 0x6F, 0x2E, 0x65, 0x78, 0x61, 0x6D, 0x70, 0x6C, 0x65, 0x2E, 0x63, 0x6F, 0x6D]"

definition e_foo :: dns_entry where "e_foo = new_entry tok_foo 0x0A000001"
definition e_foo2 :: dns_entry where "e_foo2 = new_entry tok_foo 0x0A000002"
definition e_bar :: dns_entry where "e_bar = new_entry [0x62, 0x61, 0x72] 0x0A000003"
definition e_alias :: dns_entry where "e_alias = new_entry [0x62, 0x61, 0x72] 0x0A000001"
definition e_star :: dns_entry where "e_star = new_entry [0x2A] 0x0A000001"

definition q_foo :: "byte list" where
  "q_foo = [3, 0x66, 0x6F, 0x6F, 7, 0x65, 0x78, 0x61, 0x6D, 0x70, 0x6C, 0x65, 3, 0x63, 0x6F, 0x6D, 0]"

definition q_FOO :: "byte list" where
  "q_FOO = [3, 0x46, 0x4F, 0x4F, 7, 0x65, 0x78, 0x61, 0x6D, 0x70, 0x6C, 0x65, 3, 0x63, 0x6F, 0x6D, 0]"

definition q_rev :: "byte list" where
  "q_rev = [1, 0x31, 1, 0x30, 1, 0x30, 2, 0x31, 0x30, 7, 0x69, 0x6E, 0x2D, 0x61, 0x64, 0x64, 0x72,
            4, 0x61, 0x72, 0x70, 0x61, 0]"

text \<open>
  A request: identifier \<open>0x1234\<close>, the flags, one question, the question name, its type
  and class 1, then the rest of the buffer.
\<close>

definition request :: "16 word \<Rightarrow> byte list \<Rightarrow> 16 word \<Rightarrow> byte list" where
  "request flags qname qtype =
     [0x12, 0x34] @ be16 flags @ [0, 1, 0, 0, 0, 0, 0, 0] @ qname @ be16 qtype @ [0, 1]
     @ replicate 70 0xEE"

definition ilp32_le :: platform where
  "ilp32_le = \<lparr>sizeof_ptr = 4, big_endian = False\<rparr>"


section \<open>Facts about bytes, words and strings\<close>

lemma word16_bytes:
  "push_bit 8 (ucast (ucast (drop_bit 8 w :: 16 word) :: byte) :: 16 word) OR ucast (ucast w :: byte) = w"
  by (rule bit_word_eqI) (auto simp: bit_simps)

lemma get16_be16 [simp]: "get16 (be16 w @ xs) 0 = w"
  by (simp add: get16_def be16_def word16_bytes)

lemma length_be16 [simp]: "length (be16 w) = 2"
  by (simp add: be16_def)

lemma length_be32 [simp]: "length (be32 w) = 4"
  by (simp add: be32_def)

lemma tolower_0 [simp]: "tolower c = 0 \<longleftrightarrow> c = 0"
proof -
  have "c + 0x20 \<noteq> 0" if "0x41 \<le> c" "c \<le> 0x5A"
  proof
    assume "c + 0x20 = 0"
    then have "c = - 0x20" by (simp add: eq_neg_iff_add_eq_0)
    with that show False by simp
  qed
  then show ?thesis by (auto simp: tolower_def)
qed

lemma tolower_0' [simp]: "0 = tolower c \<longleftrightarrow> c = 0"
  using tolower_0 [of c] by auto

lemma tolower_zero [simp]: "tolower 0 = 0"
  by (simp add: tolower_def)

lemma uint_byte_eq_iff: "uint (a::byte) = uint b \<longleftrightarrow> a = b"
  using word_uint_eq_iff [of a b] by simp

lemma strcasecmp_0_iff:
  "strcasecmp s1 s2 = 0 \<longleftrightarrow> map tolower (cstr s1) = map tolower (cstr s2)"
  by (induction s1 s2 rule: strcasecmp.induct)
     (auto simp: cstr_def uint_byte_eq_iff uint_0_iff)

lemma strncmp_0_iff:
  "strncmp s1 s2 n = 0 \<longleftrightarrow> take n (cstr s1) = take n (cstr s2)"
  by (induction s1 s2 n rule: strncmp.induct)
     (auto simp: cstr_def uint_byte_eq_iff uint_0_iff)

lemma strncmp_strlen_0_iff:
  "strncmp s1 s2 (strlen s1) = 0 \<longleftrightarrow> take (strlen s1) (cstr s2) = cstr s1"
  by (auto simp: strncmp_0_iff strlen_def)

lemma cstr_append_nul: "0 \<notin> set s \<Longrightarrow> cstr (s @ 0 # t) = s"
  by (induction s) (auto simp: cstr_def)

lemma cstr_no_nul [simp]: "0 \<notin> set (cstr s)"
  by (auto simp: cstr_def dest: set_takeWhileD)

lemma cstr_split: "0 \<in> set s \<Longrightarrow> s = cstr s @ 0 # drop (Suc (strlen s)) s"
  by (induction s) (auto simp: cstr_def strlen_def)

section \<open>The table scan and the name codec\<close>

lemma table_lookup_step:
  "table_lookup cap (d # ds) type qs =
     (if matches type qs d
      then (if length (rdata_of type d) \<le> cap then Some (0, rdata_of type d) else None)
      else table_lookup cap ds type qs)"
  by (auto simp: matches_def wildcard_def rdata_of_def strlen_def Let_def)

lemma table_lookup_find:
  "table_lookup cap tbl type qs =
     (case find (matches type qs) tbl of
        None \<Rightarrow> Some (- 1, [])
      | Some d \<Rightarrow> if length (rdata_of type d) \<le> cap then Some (0, rdata_of type d) else None)"
  by (induction tbl) (simp_all add: table_lookup_step del: table_lookup.simps(2))

lemma find_first:
  "\<forall>x\<in>set xs. \<not> P x \<Longrightarrow> P d \<Longrightarrow> find P (xs @ d # ys) = Some d"
  by (induction xs) auto

lemma find_skip:
  "\<not> P d \<Longrightarrow> find P (xs @ d # ys) = find P (xs @ ys)"
  by (induction xs) auto


lemma labels_ne [simp]: "labels cs \<noteq> []"
  by (induction cs) (auto split: list.splits)

lemma undot_loop_labels:
  "undot_loop cs = (hd (labels cs) @ concat (map wire_label (tl (labels cs))), length (hd (labels cs)))"
proof (induction cs)
  case Nil
  then show ?case by simp
next
  case (Cons c cs)
  then show ?case
    by (cases "labels cs") (auto simp: wire_label_def)
qed

lemma undot_loop_dot:
  "fst (undot_loop (0x2E # cs)) = concat (map wire_label (labels cs))"
  by (cases "labels cs") (auto simp: undot_loop_labels wire_label_def)

lemma strlen_no_nul: "0 \<notin> set s \<Longrightarrow> strlen (s @ 0 # t) = length s"
  by (simp add: strlen_def cstr_append_nul)

lemma undot_dotted:
  assumes "0 \<notin> set token0"
  shows "undot (0x2E # token0 @ [0]) = concat (map wire_label (labels token0)) @ [0]"
proof -
  have "strlen (0x2E # token0 @ [0]) = Suc (length token0)"
    using assms strlen_no_nul [of "0x2E # token0" "[]"] by simp
  then show ?thesis
    by (simp add: undot_def Let_def undot_loop_dot del: undot_loop.simps)
qed

section \<open>Stores into the buffer and the header\<close>

lemma store_length: "store m a bs = Some m' \<Longrightarrow> length m' = length m"
  by (auto simp: store_def split: if_splits)

lemma store_take: "store m a bs = Some m' \<Longrightarrow> k \<le> a \<Longrightarrow> take k m' = take k m"
  by (auto simp: store_def min_def split: if_splits)

lemma store_app:
  "length pre = a \<Longrightarrow> length bs \<le> length post \<Longrightarrow>
   store (pre @ post) a bs = Some (pre @ bs @ drop (length bs) post)"
  by (simp add: store_def)

lemma length_12:
  "length (xs :: 'a list) = 12 \<Longrightarrow>
   \<exists>i0 i1 f0 f1 q0 q1 a0 a1 n0 n1 r0 r1. xs = [i0, i1, f0, f1, q0, q1, a0, a1, n0, n1, r0, r1]"
  by (simp add: numeral_eq_Suc length_Suc_conv) blast

lemma hdr_split:
  assumes "12 \<le> length buf"
  shows "\<exists>i0 i1 f0 f1 q0 q1 a0 a1 n0 n1 r0 r1 rest.
           buf = i0 # i1 # f0 # f1 # q0 # q1 # a0 # a1 # n0 # n1 # r0 # r1 # rest"
proof -
  have "length (take 12 buf) = 12" using assms by simp
  from length_12 [OF this] obtain i0 i1 f0 f1 q0 q1 a0 a1 n0 n1 r0 r1 where
    "take 12 buf = [i0, i1, f0, f1, q0, q1, a0, a1, n0, n1, r0, r1]"
    by blast
  then have "buf = [i0, i1, f0, f1, q0, q1, a0, a1, n0, n1, r0, r1] @ drop 12 buf"
    using append_take_drop_id [of 12 buf] by simp
  then show ?thesis by (simp only: append.simps) blast
qed

lemma empty_packet_explicit:
  "empty_packet (i0 # i1 # f0 # f1 # q0 # q1 # a0 # a1 # n0 # n1 # r0 # r1 # rest) fl answb =
     Some (int answb, [i0, i1] @ be16 (get16 [f0, f1] 0 OR fl) @ be16 1 @ [a0, a1] @ be16 0 @ be16 0 @ rest)"
  by (simp add: empty_packet_def put16_def store_def get16_def be16_def)

lemma empty_packet_eq:
  assumes "12 \<le> length buf"
  shows "empty_packet buf fl answb =
     Some (int answb, take 2 buf @ be16 (get16 buf 2 OR fl) @ be16 1 @ take 2 (drop 6 buf)
                       @ be16 0 @ be16 0 @ drop 12 buf)"
proof -
  from hdr_split [OF assms] obtain i0 i1 f0 f1 q0 q1 a0 a1 n0 n1 r0 r1 rest where
    b: "buf = i0 # i1 # f0 # f1 # q0 # q1 # a0 # a1 # n0 # n1 # r0 # r1 # rest" by blast
  show ?thesis
    unfolding b empty_packet_explicit by (simp add: get16_def)
qed

lemma REQ_distinct [simp]: "REQ_A \<noteq> REQ_PTR" "REQ_PTR \<noteq> REQ_A"
  by (simp_all add: REQ_A_def REQ_PTR_def)

lemma cstr_cstr_nul [simp]: "cstr (cstr s @ 0 # t) = cstr s"
  by (simp add: cstr_append_nul)

lemma length_rdata_of:
  "length (rdata_of type d) = (if type = REQ_A then 4 else strlen (name d) + 1)"
  by (simp add: rdata_of_def strlen_def)

lemma table_lookup_hit:
  assumes "table_lookup cap tbl type qs = Some (rc, answstr)" "rc = 0"
  shows "\<exists>d. find (matches type qs) tbl = Some d \<and> answstr = rdata_of type d \<and> length answstr \<le> cap"
  using assms by (auto simp: table_lookup_find split: option.splits if_splits)

lemma table_lookup_miss:
  assumes "table_lookup cap tbl type qs = Some (rc, answstr)" "rc \<noteq> 0"
  shows "find (matches type qs) tbl = None"
  using assms by (auto simp: table_lookup_find split: option.splits if_splits)

lemma table_lookup_rc:
  "table_lookup cap tbl type qs = Some (rc, answstr) \<Longrightarrow> rc = 0 \<or> rc = - 1"
  by (auto simp: table_lookup_find split: option.splits if_splits)

lemma outr_rlen_eq:
  assumes "table_lookup cap tbl type qs = Some (0, answstr)"
  shows "(if type = REQ_PTR then strlen answstr + 1 else 4) = length answstr
         \<or> (type \<noteq> REQ_A \<and> type \<noteq> REQ_PTR)"
proof -
  from table_lookup_hit [OF assms] obtain d where "answstr = rdata_of type d" by blast
  then show ?thesis by (auto simp: rdata_of_def strlen_def)
qed

lemma strlen_less: "0 \<in> set s \<Longrightarrow> strlen s < length s"
  by (induction s) (auto simp: strlen_def cstr_def)

lemma take_strlen: "take (strlen s) s = cstr s"
  unfolding strlen_def cstr_def by (rule takeWhile_eq_take [symmetric])

lemma strlen_at_SomeD:
  assumes "strlen_at buf a = Some n"
  shows "a + n < length buf" and "take n (drop a buf) = cstr (drop a buf)"
    and "strlen (drop a buf) = n"
proof -
  from assms have z: "0 \<in> set (drop a buf)" and n: "n = strlen (drop a buf)"
    by (auto simp: strlen_at_def split: if_splits)
  from strlen_less [OF z] show "a + n < length buf" by (simp add: n)
  show "take n (drop a buf) = cstr (drop a buf)" by (simp only: n take_strlen)
  show "strlen (drop a buf) = n" by (simp add: n)
qed

section \<open>The paths through the packet processor\<close>

lemma process_packet_drop:
  assumes "12 \<le> length buf" "get16 buf 4 = 0 \<or> get16 buf 2 AND 0x8000 \<noteq> 0"
  shows "process_packet pf conf_data conf_ttl buf = Some (- 1, buf)"
  using assms by (auto simp: process_packet_def)

text \<open>The three ways to the label: the flags that are then or-ed into the header.\<close>

lemma process_packet_reject:
  assumes "get16 buf 4 \<noteq> 0" "get16 buf 2 AND 0x8000 = 0"
    and "strlen_at buf 12 = Some n" "17 + n \<le> length buf"
    and "(get16 buf (13 + n) \<noteq> REQ_A \<and> get16 buf (13 + n) \<noteq> REQ_PTR)
         \<or> get16 buf (15 + n) \<noteq> 1 \<or> get16 buf 2 AND 0x7800 \<noteq> 0"
  shows "process_packet pf conf_data conf_ttl buf = empty_packet buf 0x8004 (17 + n)"
  using assms by (auto simp: process_packet_def Let_def)

lemma process_packet_miss:
  assumes "get16 buf 4 \<noteq> 0" "get16 buf 2 AND 0x8000 = 0"
    and "strlen_at buf 12 = Some n" "17 + n \<le> length buf"
    and "get16 buf (13 + n) = REQ_A \<or> get16 buf (13 + n) = REQ_PTR"
    and "get16 buf (15 + n) = 1" "get16 buf 2 AND 0x7800 = 0"
    and "table_lookup (MAX_NAME_LEN + 1) conf_data (get16 buf (13 + n)) (drop 12 buf) = Some (rc, answstr)"
    and "rc \<noteq> 0"
  shows "process_packet pf conf_data conf_ttl buf = empty_packet buf 0x8403 (17 + n)"
  using assms by (auto simp: process_packet_def Let_def)

lemma empty_packet_ret: "empty_packet b fl a = Some (r, b') \<Longrightarrow> r = int a"
  by (auto simp: empty_packet_def split: bind_splits)

lemma process_packet_neg:
  assumes "process_packet pf conf_data conf_ttl buf = Some (r, buf')" "r \<le> 0"
  shows "get16 buf 4 = 0 \<or> get16 buf 2 AND 0x8000 \<noteq> 0"
  using assms
  by (auto simp: process_packet_def Let_def split: if_splits bind_splits dest!: empty_packet_ret)

lemma empty_packet_header:
  assumes "12 \<le> length b" "empty_packet b fl a = Some (r, b')"
  shows "r = int a" "take 2 b' = take 2 b" "get16 b' 2 = get16 b 2 OR fl" "get16 b' 4 = 1"
    "get16 b' 6 = get16 b 6" "get16 b' 8 = 0" "get16 b' 10 = 0" "drop 12 b' = drop 12 b"
    "length b' = length b"
proof -
  from hdr_split [OF assms(1)] obtain i0 i1 f0 f1 q0 q1 a0 a1 n0 n1 r0 r1 rest where
    b: "b = i0 # i1 # f0 # f1 # q0 # q1 # a0 # a1 # n0 # n1 # r0 # r1 # rest" by blast
  from assms(2) have r: "r = int a"
    and b': "b' = [i0, i1] @ be16 (get16 [f0, f1] 0 OR fl) @ be16 1 @ [a0, a1] @ be16 0 @ be16 0 @ rest"
    unfolding b empty_packet_explicit by simp_all
  show "r = int a" by (rule r)
  show "take 2 b' = take 2 b" by (simp add: b b')
  have "get16 b 2 = get16 [f0, f1] 0" by (simp add: b get16_def)
  moreover have "get16 (i0 # i1 # be16 w @ xs) 2 = w" for w xs
    by (simp add: get16_def be16_def word16_bytes)
  ultimately show "get16 b' 2 = get16 b 2 OR fl"
    by (simp add: b')
  show "get16 b' 4 = 1" by (simp add: b' get16_def be16_def)
  show "get16 b' 6 = get16 b 6" by (simp add: b b' get16_def be16_def)
  show "get16 b' 8 = 0" by (simp add: b' get16_def be16_def)
  show "get16 b' 10 = 0" by (simp add: b' get16_def be16_def)
  show "drop 12 b' = drop 12 b" by (simp add: b b' be16_def)
  show "length b' = length b" by (simp add: b b')
qed

lemma get16_take4: "take 4 m' = take 4 m \<Longrightarrow> get16 m' 2 = get16 m 2"
proof -
  assume t: "take 4 m' = take 4 m"
  have "get16 x 2 = get16 (take 4 x) 2" for x :: "byte list"
    by (simp add: get16_def)
  from this [of m'] this [of m] t show ?thesis by simp
qed

lemma take2_take4: "take 4 m' = take 4 (m :: byte list) \<Longrightarrow> take 2 m' = take 2 m"
proof -
  assume t: "take 4 m' = take 4 m"
  have "take 2 (take 4 m') = take 2 (take 4 m)" by (simp only: t)
  then show ?thesis by simp
qed

lemma store_head:
  "store m a bs = Some m' \<Longrightarrow>
   4 \<le> a \<longrightarrow> length m' = length m \<and> take 2 m' = take 2 m \<and> get16 m' 2 = get16 m 2"
  by (auto simp: store_def intro: get16_take4 take2_take4 split: if_splits)

lemma put16_head:
  "put16 m a w = Some m' \<Longrightarrow>
   4 \<le> a \<longrightarrow> length m' = length m \<and> take 2 m' = take 2 m \<and> get16 m' 2 = get16 m 2"
  unfolding put16_def by (rule store_head)

lemma memcpy_head:
  "memcpy m dst src n = Some m' \<Longrightarrow>
   4 \<le> dst \<longrightarrow> length m' = length m \<and> take 2 m' = take 2 m \<and> get16 m' 2 = get16 m 2"
  by (auto simp: memcpy_def dest!: store_head split: if_splits)

lemma memcpy_from_head:
  "memcpy_from m dst src n = Some m' \<Longrightarrow>
   4 \<le> dst \<longrightarrow> length m' = length m \<and> take 2 m' = take 2 m \<and> get16 m' 2 = get16 m 2"
  by (auto simp: memcpy_from_def dest!: store_head split: if_splits)

lemma empty_packet_head:
  "empty_packet b fl a = Some (r, b') \<Longrightarrow>
   12 \<le> length b \<longrightarrow> r = int a \<and> take 2 b' = take 2 b \<and> get16 b' 2 = get16 b 2 OR fl
     \<and> get16 b' 4 = 1 \<and> get16 b' 8 = 0 \<and> get16 b' 10 = 0"
  using empty_packet_header [of b fl a r b'] by blast

lemma process_packet_hit_chain:
  assumes "get16 buf 4 \<noteq> 0" "get16 buf 2 AND 0x8000 = 0"
    and "strlen_at buf 12 = Some n" "17 + n \<le> length buf"
    and "get16 buf (13 + n) = REQ_A \<or> get16 buf (13 + n) = REQ_PTR"
    and "get16 buf (15 + n) = 1" "get16 buf 2 AND 0x7800 = 0"
    and "table_lookup (MAX_NAME_LEN + 1) conf_data (get16 buf (13 + n)) (drop 12 buf) = Some (0, answstr)"
  shows "process_packet pf conf_data conf_ttl buf =
           answer_chain pf conf_ttl buf n answstr
             (if get16 buf (13 + n) = REQ_PTR then strlen answstr + 1 else 4)"
  using assms(5)
proof
  assume "get16 buf (13 + n) = REQ_A"
  with assms show ?thesis by (simp add: process_packet_def answer_chain_def Let_def)
next
  assume "get16 buf (13 + n) = REQ_PTR"
  with assms show ?thesis by (simp add: process_packet_def answer_chain_def Let_def)
qed

lemma answer_chain_header:
  assumes "answer_chain pf conf_ttl buf n answstr rl = Some (r, buf')" "12 \<le> length buf"
  shows "take 2 buf' = take 2 buf \<and> get16 buf' 2 = get16 buf 2 OR 0x8400
       \<and> get16 buf' 4 = 1 \<and> get16 buf' 8 = 0 \<and> get16 buf' 10 = 0"
proof -
  from assms(1) [unfolded answer_chain_def bind_eq_Some_conv]
  obtain b1 b2 b3 b4 b5 where
    1: "put16 buf 6 1 = Some b1" and 2: "memcpy b1 (17 + n) 12 (n + 1 + sizeof_ptr pf) = Some b2"
    and 3: "store b2 (17 + n + (n + 1 + sizeof_ptr pf)) (be32 conf_ttl) = Some b3"
    and 4: "store b3 (17 + n + (n + 1 + sizeof_ptr pf) + 4) (store32_of_htons pf (of_nat rl)) = Some b4"
    and 5: "memcpy_from b4 (17 + n + (n + 1 + sizeof_ptr pf) + 4 + 2) answstr rl = Some b5"
    and 6: "empty_packet b5 0x8400 (17 + n + (n + 1 + sizeof_ptr pf) + 4 + 2 + rl) = Some (r, buf')"
    by blast
  have h1: "length b1 = length buf" "take 2 b1 = take 2 buf" "get16 b1 2 = get16 buf 2"
    using put16_head [OF 1] by simp_all
  have h2: "length b2 = length b1" "take 2 b2 = take 2 b1" "get16 b2 2 = get16 b1 2"
    using memcpy_head [OF 2] by simp_all
  have h3: "length b3 = length b2" "take 2 b3 = take 2 b2" "get16 b3 2 = get16 b2 2"
    using store_head [OF 3] by simp_all
  have h4: "length b4 = length b3" "take 2 b4 = take 2 b3" "get16 b4 2 = get16 b3 2"
    using store_head [OF 4] by simp_all
  have h5: "length b5 = length b4" "take 2 b5 = take 2 b4" "get16 b5 2 = get16 b4 2"
    using memcpy_from_head [OF 5] by simp_all
  have h: "length b5 = length buf" "take 2 b5 = take 2 buf" "get16 b5 2 = get16 buf 2"
    by (simp_all only: h1 h2 h3 h4 h5)
  with assms(2) empty_packet_head [OF 6] show ?thesis by simp
qed

lemma process_packet_undefined_lookup:
  assumes "get16 buf 4 \<noteq> 0" "get16 buf 2 AND 0x8000 = 0"
    and "strlen_at buf 12 = Some n" "17 + n \<le> length buf"
    and "get16 buf (13 + n) = REQ_A \<or> get16 buf (13 + n) = REQ_PTR"
    and "get16 buf (15 + n) = 1" "get16 buf 2 AND 0x7800 = 0"
    and "table_lookup (MAX_NAME_LEN + 1) conf_data (get16 buf (13 + n)) (drop 12 buf) = None"
  shows "process_packet pf conf_data conf_ttl buf = None"
  using assms(5)
proof
  assume "get16 buf (13 + n) = REQ_A"
  with assms show ?thesis by (simp add: process_packet_def Let_def)
next
  assume "get16 buf (13 + n) = REQ_PTR"
  with assms show ?thesis by (simp add: process_packet_def Let_def)
qed

lemma process_packet_header:
  assumes pp: "process_packet pf conf_data conf_ttl buf = Some (r, buf')" and r: "0 < r"
  shows "take 2 buf' = take 2 buf
       \<and> (get16 buf' 2 = get16 buf 2 OR 0x8004 \<or> get16 buf' 2 = get16 buf 2 OR 0x8403
            \<or> get16 buf' 2 = get16 buf 2 OR 0x8400)
       \<and> get16 buf' 4 = 1 \<and> get16 buf' 8 = 0 \<and> get16 buf' 10 = 0"
proof -
  from pp r have l: "12 \<le> length buf" and nd: "get16 buf 4 \<noteq> 0" "get16 buf 2 AND 0x8000 = 0"
    by (auto simp: process_packet_def split: if_splits)
  show ?thesis
  proof (cases "strlen_at buf 12")
    case None
    with pp l nd show ?thesis by (simp add: process_packet_def)
  next
    case (Some n)
    show ?thesis
    proof (cases "17 + n \<le> length buf")
      case False
      with pp l nd Some show ?thesis by (simp add: process_packet_def Let_def)
    next
      case a: True
      show ?thesis
      proof (cases "(get16 buf (13 + n) \<noteq> REQ_A \<and> get16 buf (13 + n) \<noteq> REQ_PTR)
                     \<or> get16 buf (15 + n) \<noteq> 1 \<or> get16 buf 2 AND 0x7800 \<noteq> 0")
        case True
        from process_packet_reject [OF nd Some a True] pp
        have "empty_packet buf 0x8004 (17 + n) = Some (r, buf')" by simp
        from empty_packet_head [OF this] l show ?thesis by simp
      next
        case False
        then have t: "get16 buf (13 + n) = REQ_A \<or> get16 buf (13 + n) = REQ_PTR"
          and c: "get16 buf (15 + n) = 1" "get16 buf 2 AND 0x7800 = 0" by auto
        show ?thesis
        proof (cases "table_lookup (MAX_NAME_LEN + 1) conf_data (get16 buf (13 + n)) (drop 12 buf)")
          case None
          from process_packet_undefined_lookup [OF nd Some a t c None] pp show ?thesis by simp
        next
          case (Some res)
          obtain rc answstr where res: "res = (rc, answstr)" by (cases res)
          show ?thesis
          proof (cases "rc = 0")
            case True
            from Some res True
            have look: "table_lookup (MAX_NAME_LEN + 1) conf_data (get16 buf (13 + n)) (drop 12 buf)
                          = Some (0, answstr)" by simp
            from process_packet_hit_chain [OF nd \<open>strlen_at buf 12 = Some n\<close> a t c look] pp
            have "answer_chain pf conf_ttl buf n answstr
                    (if get16 buf (13 + n) = REQ_PTR then strlen answstr + 1 else 4) = Some (r, buf')"
              by simp
            from answer_chain_header [OF this l] show ?thesis by simp
          next
            case False
            from Some res
            have look: "table_lookup (MAX_NAME_LEN + 1) conf_data (get16 buf (13 + n)) (drop 12 buf)
                          = Some (rc, answstr)" by simp
            from process_packet_miss [OF nd \<open>strlen_at buf 12 = Some n\<close> a t c look False] pp
            have "empty_packet buf 0x8403 (17 + n) = Some (r, buf')" by simp
            from empty_packet_head [OF this] l show ?thesis by simp
          qed
        qed
      qed
    qed
  qed
qed

section \<open>The properties\<close>

text \<open>
  C6. A buffer whose header has a question count of zero, and a buffer whose QR bit marks
  a response, make the packet processor return \<open>-1\<close> and leave the buffer as it was;
  and whenever the processor returns a value that \<^verbatim>\<open>dnsd_main\<close> does not send
  (\<open>r \<le> 0\<close>), the buffer was one of these two: there is no other drop case. The
  header must lie inside the buffer (\<^verbatim>\<open>dnsd_main\<close> passes at least 12 bytes).
\<close>

theorem drop_cases:
  assumes "12 \<le> length buf"
  shows "(get16 buf 4 = 0 \<or> get16 buf 2 AND 0x8000 \<noteq> 0
            \<longrightarrow> process_packet pf conf_data conf_ttl buf = Some (- 1, buf))
       \<and> (\<forall>r buf'. process_packet pf conf_data conf_ttl buf = Some (r, buf') \<and> r \<le> 0
            \<longrightarrow> get16 buf 4 = 0 \<or> get16 buf 2 AND 0x8000 \<noteq> 0)"
  using assms process_packet_drop [of buf pf conf_data conf_ttl]
    process_packet_neg [of pf conf_data conf_ttl buf]
  by blast

theorem drop_cases_witness:
  "process_packet \<lparr>sizeof_ptr = 4, big_endian = False\<rparr> [] 120
     [0x12, 0x34, 1, 0, 0, 0, 0, 0, 0, 0, 0, 0, 0, 0, 1, 0, 1]
   = Some (- 1, [0x12, 0x34, 1, 0, 0, 0, 0, 0, 0, 0, 0, 0, 0, 0, 1, 0, 1])
   \<and> process_packet \<lparr>sizeof_ptr = 4, big_endian = False\<rparr> [] 120
     [0x12, 0x34, 0x81, 0, 0, 1, 0, 0, 0, 0, 0, 0, 0, 0, 1, 0, 1]
   = Some (- 1, [0x12, 0x34, 0x81, 0, 0, 1, 0, 0, 0, 0, 0, 0, 0, 0, 1, 0, 1])"
  using drop_cases [of "[0x12, 0x34, 1, 0, 0, 0, 0, 0, 0, 0, 0, 0, 0, 0, 1, 0, 1]"
      "\<lparr>sizeof_ptr = 4, big_endian = False\<rparr>" "[]" 120]
    drop_cases [of "[0x12, 0x34, 0x81, 0, 0, 1, 0, 0, 0, 0, 0, 0, 0, 0, 1, 0, 1]"
      "\<lparr>sizeof_ptr = 4, big_endian = False\<rparr>" "[]" 120]
  by (simp add: get16_def)

lemma wildcard_iff: "wildcard d = first_label_star d"
proof (cases "name d")
  case Nil
  then show ?thesis by (simp add: wildcard_def first_label_star_def byte_at_def)
next
  case (Cons a s)
  then show ?thesis
    by (cases s) (auto simp: wildcard_def first_label_star_def byte_at_def)
qed

lemma matches_iff:
  "matches type qs d =
     (if type = REQ_A then first_label_star d \<or> name_equal qs d
      else \<not> first_label_star d \<and> rip_prefix qs d)"
  using strncmp_strlen_0_iff [of "rip d" qs]
  by (simp add: matches_def wildcard_iff name_equal_def rip_prefix_def strcasecmp_0_iff strlen_def)




lemma cstr_append_terminated: "0 \<in> set s \<Longrightarrow> cstr (s @ t) = cstr s"
  unfolding cstr_def by (rule takeWhile_append1 [of 0]) auto

lemma name_new_entry:
  "0 \<notin> set token0 \<Longrightarrow> name (new_entry token0 v32) = concat (map wire_label (labels token0)) @ [0]"
  by (simp add: new_entry_def undot_dotted)

text \<open>
  C9. Round trip through the name codec. A dotted host name of the configuration (a C
  string, so free of NUL bytes) that has a wire encoding is stored, after the leading
  dot is put in front and \<^verbatim>\<open>undot\<close> has run, as exactly that wire encoding; so a
  forward query that carries the same name in wire label encoding, whatever follows the
  name in the packet, compares equal under \<^verbatim>\<open>strcasecmp\<close> and the lookup answers
  with the entry's address.
\<close>

theorem name_codec_round_trip:
  assumes "0 \<notin> set token0" "wire_name token0 = Some q"
  shows "name (new_entry token0 v32) = q
       \<and> strcasecmp (name (new_entry token0 v32)) (q @ rest) = 0
       \<and> table_lookup (MAX_NAME_LEN + 1) (new_entry token0 v32 # tbl) REQ_A (q @ rest)
           = Some (0, be32 v32)"
proof -
  from assms(2) have q: "q = concat (map wire_label (labels token0)) @ [0]"
    by (auto simp: wire_name_def split: if_splits)
  with assms(1) have n: "name (new_entry token0 v32) = q"
    by (simp add: name_new_entry)
  have "0 \<in> set q" by (simp add: q)
  then have c: "strcasecmp q (q @ rest) = 0"
    by (simp add: strcasecmp_0_iff cstr_append_terminated)
  have "ip (new_entry token0 v32) = v32" by (simp add: new_entry_def)
  with n c show ?thesis
    by (simp add: table_lookup_step matches_def rdata_of_def MAX_NAME_LEN_def IP_STRING_LEN_def
          del: table_lookup.simps)
qed

theorem name_codec_round_trip_witness:
  "name e_foo = q_foo \<and> strcasecmp (name e_foo) (q_foo @ [0, 1, 0, 1]) = 0
   \<and> table_lookup (MAX_NAME_LEN + 1) [e_foo] REQ_A (q_foo @ [0, 1, 0, 1]) = Some (0, be32 0x0A000001)"
proof -
  have "0 \<notin> set tok_foo" "wire_name tok_foo = Some q_foo" by code_simp+
  from name_codec_round_trip [OF this, of "0x0A000001" "[0, 1, 0, 1]" "[]"]
  show ?thesis unfolding e_foo_def .
qed

lemma or_and_absorb: "(f OR c) AND f = (f :: 16 word)"
  by (rule bit_word_eqI) (auto simp: bit_simps)

text \<open>
  C8. Whatever counts the request header carried, every reply (a return value that
  \<^verbatim>\<open>dnsd_main\<close> sends, \<open>0 < r\<close>) has question count 1, authority count 0 and
  additional count 0, read in network byte order. The witness is a request with the
  counts 2, 7, 3 and 4.
\<close>

theorem counts_forced:
  assumes "process_packet pf conf_data conf_ttl buf = Some (r, buf')" "0 < r"
  shows "get16 buf' 4 = 1 \<and> get16 buf' 8 = 0 \<and> get16 buf' 10 = 0"
  using process_packet_header [OF assms] by simp

theorem counts_forced_witness:
  "process_packet ilp32_le [e_foo] 120
     ([0x12, 0x34, 0x03, 0x05, 0, 2, 0, 7, 0, 3, 0, 4] @ q_foo @ [0, 15, 0, 1] @ replicate 4 0xEE)
   = Some (33, [0x12, 0x34, 0x83, 0x05, 0, 1, 0, 7, 0, 0, 0, 0] @ q_foo @ [0, 15, 0, 1] @ replicate 4 0xEE)
   \<and> get16 ([0x12, 0x34, 0x83, 0x05, 0, 1, 0, 7, 0, 0, 0, 0] @ q_foo @ [0, 15, 0, 1] @ replicate 4 0xEE) 4 = 1
   \<and> get16 ([0x12, 0x34, 0x83, 0x05, 0, 1, 0, 7, 0, 0, 0, 0] @ q_foo @ [0, 15, 0, 1] @ replicate 4 0xEE) 8 = 0
   \<and> get16 ([0x12, 0x34, 0x83, 0x05, 0, 1, 0, 7, 0, 0, 0, 0] @ q_foo @ [0, 15, 0, 1] @ replicate 4 0xEE) 10 = 0"
proof -
  have e: "process_packet ilp32_le [e_foo] 120
     ([0x12, 0x34, 0x03, 0x05, 0, 2, 0, 7, 0, 3, 0, 4] @ q_foo @ [0, 15, 0, 1] @ replicate 4 0xEE)
   = Some (33, [0x12, 0x34, 0x83, 0x05, 0, 1, 0, 7, 0, 0, 0, 0] @ q_foo @ [0, 15, 0, 1] @ replicate 4 0xEE)"
    by code_simp
  have "(0::int) < 33" by simp
  from counts_forced [OF e this] e show ?thesis by simp
qed

text \<open>
  C10. In every reply the flags are the flags of the request or-ed with the flags the
  processor computed (\<open>0x8004\<close>, \<open>0x8403\<close> or \<open>0x8400\<close>), so no bit that was set in
  the request is cleared, and the two bytes of the identifier are as they came.
\<close>

theorem flags_or_and_id_kept:
  assumes "process_packet pf conf_data conf_ttl buf = Some (r, buf')" "0 < r"
  shows "take 2 buf' = take 2 buf
       \<and> (get16 buf' 2 = get16 buf 2 OR 0x8004 \<or> get16 buf' 2 = get16 buf 2 OR 0x8403
            \<or> get16 buf' 2 = get16 buf 2 OR 0x8400)
       \<and> get16 buf' 2 AND get16 buf 2 = get16 buf 2"
  using process_packet_header [OF assms] by (auto simp: or_and_absorb)

theorem flags_or_and_id_kept_witness:
  "process_packet ilp32_le [e_foo] 120
     ([0x12, 0x34, 0x03, 0x05, 0, 2, 0, 7, 0, 3, 0, 4] @ q_rev @ [0, 1, 0, 1] @ replicate 4 0xEE)
   = Some (39, [0x12, 0x34, 0x87, 0x07, 0, 1, 0, 7, 0, 0, 0, 0] @ q_rev @ [0, 1, 0, 1] @ replicate 4 0xEE)
   \<and> get16 ([0x12, 0x34, 0x87, 0x07, 0, 1, 0, 7, 0, 0, 0, 0] @ q_rev @ [0, 1, 0, 1] @ replicate 4 0xEE) 2
       AND get16 ([0x12, 0x34, 0x03, 0x05, 0, 2, 0, 7, 0, 3, 0, 4] @ q_rev @ [0, 1, 0, 1] @ replicate 4 0xEE) 2
       = get16 ([0x12, 0x34, 0x03, 0x05, 0, 2, 0, 7, 0, 3, 0, 4] @ q_rev @ [0, 1, 0, 1] @ replicate 4 0xEE) 2"
proof -
  have e: "process_packet ilp32_le [e_foo] 120
     ([0x12, 0x34, 0x03, 0x05, 0, 2, 0, 7, 0, 3, 0, 4] @ q_rev @ [0, 1, 0, 1] @ replicate 4 0xEE)
   = Some (39, [0x12, 0x34, 0x87, 0x07, 0, 1, 0, 7, 0, 0, 0, 0] @ q_rev @ [0, 1, 0, 1] @ replicate 4 0xEE)"
    by code_simp
  have "(0::int) < 39" by simp
  from flags_or_and_id_kept [OF e this] e show ?thesis by simp
qed











section \<open>The reply to a query that is found\<close>

lemma store_parts:
  "length pre = a \<Longrightarrow> length old = length bs \<Longrightarrow> store (pre @ old @ post) a bs = Some (pre @ bs @ post)"
  by (simp add: store_def)

lemma put16_parts:
  "length pre = a \<Longrightarrow> length old = 2 \<Longrightarrow> put16 (pre @ old @ post) a w = Some (pre @ be16 w @ post)"
  by (simp add: put16_def store_parts)

lemma memcpy_parts:
  assumes "length H = 12" "length Q = k" "length A = k"
  shows "memcpy (H @ Q @ A @ post) (12 + k) 12 k = Some (H @ Q @ Q @ post)"
proof -
  have "take k (drop 12 (H @ Q @ A @ post)) = Q" using assms by simp
  moreover have "store ((H @ Q) @ A @ post) (12 + k) Q = Some ((H @ Q) @ Q @ post)"
    using assms by (intro store_parts) simp_all
  ultimately show ?thesis using assms by (simp add: memcpy_def)
qed

lemma memcpy_from_parts:
  assumes "length pre = a" "length old = length src"
  shows "memcpy_from (pre @ old @ post) a src (length src) = Some (pre @ src @ post)"
  using assms by (simp add: memcpy_from_def store_parts)


lemma answer_chain_parts:
  assumes pf: "sizeof_ptr pf = 4" "\<not> big_endian pf"
    and len: "length H6 = 6" "length N = 2" "length H4 = 4" "length Q = n + 5" "length A = n + 5"
      "length T = 4" "length L = 4" "length answstr \<le> 2 + length X"
  shows "answer_chain pf conf_ttl (H6 @ N @ H4 @ Q @ A @ T @ L @ X) n answstr (length answstr)
     = empty_packet (H6 @ be16 1 @ H4 @ Q @ Q @ be32 conf_ttl @ be16 (of_nat (length answstr))
                       @ answstr @ drop (length answstr) ([0, 0] @ X))
         0x8400 (17 + n + (n + 1 + sizeof_ptr pf) + 4 + 2 + length answstr)"
proof -
  define rl :: "byte list" where "rl = be16 (of_nat (length answstr))"
  define old where "old = take (length answstr) ([0, 0] @ X)"
  define post where "post = drop (length answstr) ([0, 0] @ X)"
  have lrl: "length rl = 2" by (simp add: rl_def)
  have op: "[0, 0] @ X = old @ post" by (simp add: old_def post_def)
  have lold: "length old = length answstr" using len(8) by (simp add: old_def)
  have s1: "put16 (H6 @ N @ H4 @ Q @ A @ T @ L @ X) 6 1 = Some (H6 @ be16 1 @ H4 @ Q @ A @ T @ L @ X)"
    using len by (intro put16_parts) simp_all
  have "memcpy ((H6 @ be16 1 @ H4) @ Q @ A @ T @ L @ X) (12 + (n + 5)) 12 (n + 5)
          = Some ((H6 @ be16 1 @ H4) @ Q @ Q @ T @ L @ X)"
    using len by (intro memcpy_parts) simp_all
  then have s2: "memcpy (H6 @ be16 1 @ H4 @ Q @ A @ T @ L @ X) (17 + n) 12 (n + 1 + sizeof_ptr pf)
          = Some (H6 @ be16 1 @ H4 @ Q @ Q @ T @ L @ X)"
    using pf by (simp add: add.commute)
  have "store ((H6 @ be16 1 @ H4 @ Q @ Q) @ T @ L @ X) (17 + n + (n + 1 + sizeof_ptr pf)) (be32 conf_ttl)
          = Some ((H6 @ be16 1 @ H4 @ Q @ Q) @ be32 conf_ttl @ L @ X)"
    using len pf by (intro store_parts) simp_all
  then have s3: "store (H6 @ be16 1 @ H4 @ Q @ Q @ T @ L @ X) (17 + n + (n + 1 + sizeof_ptr pf)) (be32 conf_ttl)
          = Some (H6 @ be16 1 @ H4 @ Q @ Q @ be32 conf_ttl @ L @ X)"
    by simp
  have "store ((H6 @ be16 1 @ H4 @ Q @ Q @ be32 conf_ttl) @ L @ X) (17 + n + (n + 1 + sizeof_ptr pf) + 4)
            (rl @ [0, 0])
          = Some ((H6 @ be16 1 @ H4 @ Q @ Q @ be32 conf_ttl) @ (rl @ [0, 0]) @ X)"
    using len pf lrl by (intro store_parts) simp_all
  then have s4: "store (H6 @ be16 1 @ H4 @ Q @ Q @ be32 conf_ttl @ L @ X) (17 + n + (n + 1 + sizeof_ptr pf) + 4)
            (store32_of_htons pf (of_nat (length answstr)))
          = Some (H6 @ be16 1 @ H4 @ Q @ Q @ be32 conf_ttl @ rl @ old @ post)"
    using pf by (simp add: store32_of_htons_def rl_def op [symmetric])
  have "memcpy_from ((H6 @ be16 1 @ H4 @ Q @ Q @ be32 conf_ttl @ rl) @ old @ post)
            (17 + n + (n + 1 + sizeof_ptr pf) + 4 + 2) answstr (length answstr)
          = Some ((H6 @ be16 1 @ H4 @ Q @ Q @ be32 conf_ttl @ rl) @ answstr @ post)"
    using len pf lrl lold by (intro memcpy_from_parts) simp_all
  then have s5: "memcpy_from (H6 @ be16 1 @ H4 @ Q @ Q @ be32 conf_ttl @ rl @ old @ post)
            (17 + n + (n + 1 + sizeof_ptr pf) + 4 + 2) answstr (length answstr)
          = Some (H6 @ be16 1 @ H4 @ Q @ Q @ be32 conf_ttl @ rl @ answstr @ post)"
    by simp
  show ?thesis
    unfolding answer_chain_def
    by (simp only: s1 s2 s3 s4 s5 bind.bind_lunit rl_def [symmetric] post_def [symmetric])
qed


lemma drop_split: "drop a m = take k (drop a m) @ drop (a + k) m"
proof -
  have "take k (drop a m) @ drop k (drop a m) = drop a m" by (rule append_take_drop_id)
  then show ?thesis by (simp add: add.commute)
qed

lemma buffer_parts:
  assumes "2 * n + 30 \<le> length buf"
  shows "buf = take 6 buf @ take 2 (drop 6 buf) @ take 4 (drop 8 buf) @ take (n + 5) (drop 12 buf)
           @ take (n + 5) (drop (17 + n) buf) @ take 4 (drop (2 * n + 22) buf)
           @ take 4 (drop (2 * n + 26) buf) @ drop (2 * n + 30) buf"
proof -
  have 1: "buf = take 6 buf @ drop 6 buf" by simp
  have 2: "drop 6 buf = take 2 (drop 6 buf) @ drop 8 buf"
    using drop_split [of 6 buf 2] by simp
  have 3: "drop 8 buf = take 4 (drop 8 buf) @ drop 12 buf"
    using drop_split [of 8 buf 4] by simp
  have 4: "drop 12 buf = take (n + 5) (drop 12 buf) @ drop (17 + n) buf"
    using drop_split [of 12 buf "n + 5"] by (simp add: add.commute)
  have 5: "drop (17 + n) buf = take (n + 5) (drop (17 + n) buf) @ drop (2 * n + 22) buf"
    using drop_split [of "17 + n" buf "n + 5"] by (simp add: add.commute)
  have 6: "drop (2 * n + 22) buf = take 4 (drop (2 * n + 22) buf) @ drop (2 * n + 26) buf"
    using drop_split [of "2 * n + 22" buf 4] by (simp add: add.commute)
  have 7: "drop (2 * n + 26) buf = take 4 (drop (2 * n + 26) buf) @ drop (2 * n + 30) buf"
    using drop_split [of "2 * n + 26" buf 4] by (simp add: add.commute)
  show ?thesis
    by (subst 1, subst 2, subst 3, subst 4, subst 5, subst 6, subst 7) (rule refl)
qed


lemma process_packet_hit:
  assumes pf: "sizeof_ptr pf = 4" "\<not> big_endian pf"
    and hdr: "get16 buf 4 \<noteq> 0" "get16 buf 2 AND 0x8000 = 0"
    and n: "strlen_at buf 12 = Some n"
    and type: "get16 buf (13 + n) = REQ_A \<or> get16 buf (13 + n) = REQ_PTR"
    and cls: "get16 buf (15 + n) = 1" "get16 buf 2 AND 0x7800 = 0"
    and look: "table_lookup (MAX_NAME_LEN + 1) conf_data (get16 buf (13 + n)) (drop 12 buf) = Some (0, answstr)"
    and room: "2 * n + 59 \<le> length buf"
  shows "\<exists>rest. process_packet pf conf_data conf_ttl buf =
           Some (int (2 * n + 28 + length answstr),
                 take 2 buf @ be16 (get16 buf 2 OR 0x8400) @ be16 1 @ be16 1 @ be16 0 @ be16 0
                 @ take (n + 5) (drop 12 buf) @ take (n + 5) (drop 12 buf)
                 @ be32 conf_ttl @ be16 (of_nat (length answstr)) @ answstr @ rest)"
proof -
  define H6 where "H6 = take 6 buf"
  define N where "N = take 2 (drop 6 buf)"
  define H4 where "H4 = take 4 (drop 8 buf)"
  define Q where "Q = take (n + 5) (drop 12 buf)"
  define A where "A = take (n + 5) (drop (17 + n) buf)"
  define T where "T = take 4 (drop (2 * n + 22) buf)"
  define L where "L = take 4 (drop (2 * n + 26) buf)"
  define X where "X = drop (2 * n + 30) buf"
  define Z where "Z = drop (length answstr) ([0, 0] @ X)"
  define B5 where "B5 = H6 @ be16 1 @ H4 @ Q @ Q @ be32 conf_ttl @ be16 (of_nat (length answstr)) @ answstr @ Z"
  from table_lookup_hit [OF look] have la: "length answstr \<le> 31"
    by (auto simp: MAX_NAME_LEN_def IP_STRING_LEN_def)
  from outr_rlen_eq [OF look] type
  have rlen: "(if get16 buf (13 + n) = REQ_PTR then strlen answstr + 1 else 4) = length answstr"
    by auto
  from room have "2 * n + 30 \<le> length buf" by simp
  from buffer_parts [OF this]
  have dec: "buf = H6 @ N @ H4 @ Q @ A @ T @ L @ X"
    by (simp only: H6_def N_def H4_def Q_def A_def T_def L_def X_def)
  have len: "length H6 = 6" "length N = 2" "length H4 = 4" "length Q = n + 5" "length A = n + 5"
    "length T = 4" "length L = 4"
    using room by (simp_all add: H6_def N_def H4_def Q_def A_def T_def L_def)
  have lX: "length answstr \<le> 2 + length X"
    using room la by (simp add: X_def)
  from room have a: "17 + n \<le> length buf" by simp
  have "process_packet pf conf_data conf_ttl buf = answer_chain pf conf_ttl buf n answstr (length answstr)"
    using process_packet_hit_chain [OF hdr n a type cls look, of pf conf_ttl] by (simp only: rlen)
  also have "\<dots> = answer_chain pf conf_ttl (H6 @ N @ H4 @ Q @ A @ T @ L @ X) n answstr (length answstr)"
    by (simp only: dec [symmetric])
  also have "\<dots> = empty_packet B5 0x8400 (17 + n + (n + 1 + sizeof_ptr pf) + 4 + 2 + length answstr)"
    unfolding B5_def Z_def by (rule answer_chain_parts [OF pf len lX])
  finally have pp: "process_packet pf conf_data conf_ttl buf
      = empty_packet B5 0x8400 (17 + n + (n + 1 + sizeof_ptr pf) + 4 + 2 + length answstr)" .
  have l: "12 \<le> length B5" by (simp add: B5_def len)
  have 1: "take 2 B5 = take 2 buf" using room by (simp add: B5_def H6_def)
  have "get16 (H6 @ xs) 2 = get16 H6 2" for xs
    using len(1) by (simp add: get16_def nth_append)
  from this [of "be16 1 @ H4 @ Q @ Q @ be32 conf_ttl @ be16 (of_nat (length answstr)) @ answstr @ Z"]
    this [of "N @ H4 @ Q @ A @ T @ L @ X"]
  have 2: "get16 B5 2 = get16 buf 2"
    by (simp only: B5_def dec [symmetric])
  have 3: "take 2 (drop 6 B5) = be16 1" by (simp add: B5_def len)
  have 4: "drop 12 B5 = Q @ Q @ be32 conf_ttl @ be16 (of_nat (length answstr)) @ answstr @ Z"
    by (simp add: B5_def len)
  have "process_packet pf conf_data conf_ttl buf =
          Some (int (17 + n + (n + 1 + sizeof_ptr pf) + 4 + 2 + length answstr),
            take 2 buf @ be16 (get16 buf 2 OR 0x8400) @ be16 1 @ be16 1 @ be16 0 @ be16 0
            @ Q @ Q @ be32 conf_ttl @ be16 (of_nat (length answstr)) @ answstr @ Z)"
    unfolding pp empty_packet_eq [OF l] 1 2 3 4 by (rule refl)
  moreover have "17 + n + (n + 1 + sizeof_ptr pf) + 4 + 2 + length answstr = 2 * n + 28 + length answstr"
    using pf by simp
  ultimately show ?thesis by (simp only: Q_def) blast
qed








text \<open>
  Off the target of the theorem: with 8-byte pointers \<^verbatim>\<open>sizeof(unaligned_qprop)\<close>
  makes \<^verbatim>\<open>memcpy\<close> copy four bytes more than the question, from a source that
  overlaps its destination; on a big-endian host the 32-bit store of
  \<^verbatim>\<open>htons(outr_rlen)\<close> leaves zero in the two bytes of the length.
\<close>

lemma answer_undefined_with_8_byte_pointers:
  "process_packet \<lparr>sizeof_ptr = 8, big_endian = False\<rparr> [e_foo] DEFAULT_TTL (request 0x0100 q_foo 1) = None"
  by code_simp

lemma answer_length_lost_on_big_endian:
  "process_packet \<lparr>sizeof_ptr = 4, big_endian = True\<rparr> [e_foo] DEFAULT_TTL (request 0x0100 q_foo 1)
     = Some (64, [0x12, 0x34, 0x85, 0x00, 0, 1, 0, 1, 0, 0, 0, 0] @ q_foo @ [0, 1, 0, 1]
                 @ q_foo @ [0, 1, 0, 1] @ [0, 0, 0, 120] @ [0, 0] @ [10, 0, 0, 1] @ replicate 39 0xEE)"
  by code_simp

section \<open>The resource data of the reply\<close>

lemma drop_take_parts:
  "length p = a \<Longrightarrow> length q = b \<Longrightarrow> take b (drop a (p @ q @ r)) = q"
  by simp

lemma process_packet_hit_fields:
  assumes "sizeof_ptr pf = 4" "\<not> big_endian pf"
    and "get16 buf 4 \<noteq> 0" "get16 buf 2 AND 0x8000 = 0"
    and "strlen_at buf 12 = Some n"
    and "get16 buf (13 + n) = REQ_A \<or> get16 buf (13 + n) = REQ_PTR"
    and "get16 buf (15 + n) = 1" "get16 buf 2 AND 0x7800 = 0"
    and "table_lookup (MAX_NAME_LEN + 1) conf_data (get16 buf (13 + n)) (drop 12 buf) = Some (0, answstr)"
    and "2 * n + 59 \<le> length buf"
  shows "\<exists>buf'. process_packet pf conf_data conf_ttl buf = Some (int (2 * n + 28 + length answstr), buf')
           \<and> take 2 (drop (2 * n + 26) buf') = be16 (of_nat (length answstr))
           \<and> take (length answstr) (drop (2 * n + 28) buf') = answstr"
proof -
  from process_packet_hit [OF assms, of conf_ttl] obtain rest where
    pp: "process_packet pf conf_data conf_ttl buf =
           Some (int (2 * n + 28 + length answstr),
                 take 2 buf @ be16 (get16 buf 2 OR 0x8400) @ be16 1 @ be16 1 @ be16 0 @ be16 0
                 @ take (n + 5) (drop 12 buf) @ take (n + 5) (drop 12 buf)
                 @ be32 conf_ttl @ be16 (of_nat (length answstr)) @ answstr @ rest)"
    by blast
  define P where "P = take 2 buf @ be16 (get16 buf 2 OR 0x8400) @ be16 1 @ be16 1 @ be16 0 @ be16 0
                 @ take (n + 5) (drop 12 buf) @ take (n + 5) (drop 12 buf) @ be32 conf_ttl"
  define rl :: "byte list" where "rl = be16 (of_nat (length answstr))"
  have lP: "length P = 2 * n + 26" using assms(10) by (simp add: P_def)
  have lrl: "length rl = 2" by (simp add: rl_def)
  have p: "process_packet pf conf_data conf_ttl buf
             = Some (int (2 * n + 28 + length answstr), P @ rl @ answstr @ rest)"
    unfolding P_def rl_def using pp by (simp only: append_assoc)
  have 1: "take 2 (drop (2 * n + 26) (P @ rl @ answstr @ rest)) = rl"
    using lP lrl by (intro drop_take_parts) simp_all
  have "take (length answstr) (drop (2 * n + 28) ((P @ rl) @ answstr @ rest)) = answstr"
    using lP lrl by (intro drop_take_parts) simp_all
  then have 2: "take (length answstr) (drop (2 * n + 28) (P @ rl @ answstr @ rest)) = answstr"
    by (simp only: append_assoc)
  show ?thesis
    unfolding rl_def [symmetric]
    by (rule exI [of _ "P @ rl @ answstr @ rest"]) (simp only: p 1 2 simp_thms)
qed

lemma process_packet_first_match:
  assumes "sizeof_ptr pf = 4" "\<not> big_endian pf"
    and "get16 buf 4 \<noteq> 0" "get16 buf 2 AND 0x8000 = 0"
    and "strlen_at buf 12 = Some n"
    and "get16 buf (13 + n) = REQ_A \<or> get16 buf (13 + n) = REQ_PTR"
    and "get16 buf (15 + n) = 1" "get16 buf 2 AND 0x7800 = 0"
    and "2 * n + 59 \<le> length buf"
    and "\<forall>x\<in>set xs. \<not> matches (get16 buf (13 + n)) (drop 12 buf) x"
    and "matches (get16 buf (13 + n)) (drop 12 buf) e"
    and "length (rdata_of (get16 buf (13 + n)) e) \<le> 31"
  shows "\<exists>buf'. process_packet pf (xs @ e # ys) conf_ttl buf
               = Some (int (2 * n + 28 + length (rdata_of (get16 buf (13 + n)) e)), buf')
           \<and> take 2 (drop (2 * n + 26) buf') = be16 (of_nat (length (rdata_of (get16 buf (13 + n)) e)))
           \<and> take (length (rdata_of (get16 buf (13 + n)) e)) (drop (2 * n + 28) buf')
               = rdata_of (get16 buf (13 + n)) e"
proof -
  from find_first [OF assms(10,11)]
  have "table_lookup (MAX_NAME_LEN + 1) (xs @ e # ys) (get16 buf (13 + n)) (drop 12 buf)
          = Some (0, rdata_of (get16 buf (13 + n)) e)"
    using assms(12) by (simp add: table_lookup_find MAX_NAME_LEN_def IP_STRING_LEN_def)
  from process_packet_hit_fields [OF assms(1-8) this assms(9)] show ?thesis .
qed

lemma process_packet_cong_lookup:
  assumes "\<And>n. strlen_at buf 12 = Some n \<Longrightarrow>
             table_lookup (MAX_NAME_LEN + 1) tbl (get16 buf (13 + n)) (drop 12 buf)
             = table_lookup (MAX_NAME_LEN + 1) tbl' (get16 buf (13 + n)) (drop 12 buf)"
  shows "process_packet pf tbl conf_ttl buf = process_packet pf tbl' conf_ttl buf"
proof (cases "length buf < 12 \<or> get16 buf 4 = 0 \<or> get16 buf 2 AND 0x8000 \<noteq> 0")
  case True
  then show ?thesis by (auto simp: process_packet_def)
next
  case False
  then have l: "12 \<le> length buf" and nd: "get16 buf 4 \<noteq> 0" "get16 buf 2 AND 0x8000 = 0"
    by auto
  show ?thesis
  proof (cases "strlen_at buf 12")
    case None
    with l nd show ?thesis by (simp add: process_packet_def)
  next
    case (Some n)
    note eq = assms [OF Some]
    show ?thesis
    proof (cases "17 + n \<le> length buf")
      case False
      with l nd Some show ?thesis by (simp add: process_packet_def Let_def)
    next
      case a: True
      show ?thesis
      proof (cases "(get16 buf (13 + n) \<noteq> REQ_A \<and> get16 buf (13 + n) \<noteq> REQ_PTR)
                     \<or> get16 buf (15 + n) \<noteq> 1 \<or> get16 buf 2 AND 0x7800 \<noteq> 0")
        case True
        from process_packet_reject [OF nd Some a True, of pf tbl conf_ttl]
          process_packet_reject [OF nd Some a True, of pf tbl' conf_ttl]
        show ?thesis by simp
      next
        case False
        then have t: "get16 buf (13 + n) = REQ_A \<or> get16 buf (13 + n) = REQ_PTR"
          and c: "get16 buf (15 + n) = 1" "get16 buf 2 AND 0x7800 = 0" by auto
        show ?thesis
        proof (cases "table_lookup (MAX_NAME_LEN + 1) tbl (get16 buf (13 + n)) (drop 12 buf)")
          case None
          with eq have None': "table_lookup (MAX_NAME_LEN + 1) tbl' (get16 buf (13 + n)) (drop 12 buf) = None"
            by simp
          from process_packet_undefined_lookup [OF nd Some a t c None, of pf conf_ttl]
            process_packet_undefined_lookup [OF nd Some a t c None', of pf conf_ttl]
          show ?thesis by simp
        next
          case (Some res)
          obtain rc answstr where res: "res = (rc, answstr)" by (cases res)
          from Some res have look: "table_lookup (MAX_NAME_LEN + 1) tbl (get16 buf (13 + n)) (drop 12 buf)
                          = Some (rc, answstr)" by simp
          with eq have look': "table_lookup (MAX_NAME_LEN + 1) tbl' (get16 buf (13 + n)) (drop 12 buf)
                          = Some (rc, answstr)" by simp
          show ?thesis
          proof (cases "rc = 0")
            case True
            from process_packet_hit_chain [OF nd \<open>strlen_at buf 12 = Some n\<close> a t c look [unfolded True], of pf conf_ttl]
              process_packet_hit_chain [OF nd \<open>strlen_at buf 12 = Some n\<close> a t c look' [unfolded True], of pf conf_ttl]
            show ?thesis by simp
          next
            case False
            from process_packet_miss [OF nd \<open>strlen_at buf 12 = Some n\<close> a t c look False, of pf conf_ttl]
              process_packet_miss [OF nd \<open>strlen_at buf 12 = Some n\<close> a t c look' False, of pf conf_ttl]
            show ?thesis by simp
          qed
        qed
      qed
    qed
  qed
qed

lemma table_lookup_skip_star:
  assumes "first_label_star e" "type \<noteq> REQ_A"
  shows "table_lookup cap (xs @ e # ys) type qs = table_lookup cap (xs @ ys) type qs"
proof -
  from assms have "\<not> matches type qs e" by (simp add: matches_iff)
  from find_skip [of "matches type qs" e xs ys, OF this] show ?thesis
    by (simp add: table_lookup_find)
qed

lemma first_match_forward:
  assumes "sizeof_ptr pf = 4" "\<not> big_endian pf"
    and "get16 buf 4 \<noteq> 0" "get16 buf 2 AND 0x8000 = 0"
    and "strlen_at buf 12 = Some n"
    and "get16 buf (15 + n) = 1" "get16 buf 2 AND 0x7800 = 0"
    and "2 * n + 59 \<le> length buf"
    and "get16 buf (13 + n) = REQ_A"
    and "\<forall>x\<in>set xs. \<not> first_label_star x \<and> \<not> name_equal (drop 12 buf) x"
    and "first_label_star e \<or> name_equal (drop 12 buf) e"
  shows "\<exists>buf'. process_packet pf (xs @ e # ys) conf_ttl buf = Some (int (2 * n + 32), buf')
           \<and> take 2 (drop (2 * n + 26) buf') = be16 4
           \<and> take 4 (drop (2 * n + 28) buf') = be32 (ip e)"
proof -
  have t: "get16 buf (13 + n) = REQ_A \<or> get16 buf (13 + n) = REQ_PTR" using assms(9) by simp
  have m: "\<forall>x\<in>set xs. \<not> matches (get16 buf (13 + n)) (drop 12 buf) x"
    "matches (get16 buf (13 + n)) (drop 12 buf) e"
    using assms(9-11) by (simp_all add: matches_iff)
  have r: "rdata_of (get16 buf (13 + n)) e = be32 (ip e)"
    using assms(9) by (simp add: rdata_of_def)
  then have "length (rdata_of (get16 buf (13 + n)) e) \<le> 31" by simp
  have "2 * n + 28 + length (be32 (ip e)) = 2 * n + 32" "(of_nat (length (be32 (ip e))) :: 16 word) = 4"
    by simp_all
  with process_packet_first_match [OF assms(1-5) t assms(6-8) m \<open>length (rdata_of (get16 buf (13 + n)) e) \<le> 31\<close>, of ys conf_ttl]
  show ?thesis by (simp only: r length_be32)
qed

lemma first_match_reverse:
  assumes "sizeof_ptr pf = 4" "\<not> big_endian pf"
    and "get16 buf 4 \<noteq> 0" "get16 buf 2 AND 0x8000 = 0"
    and "strlen_at buf 12 = Some n"
    and "get16 buf (15 + n) = 1" "get16 buf 2 AND 0x7800 = 0"
    and "2 * n + 59 \<le> length buf"
    and "get16 buf (13 + n) = REQ_PTR"
    and "\<forall>x\<in>set xs. first_label_star x \<or> \<not> rip_prefix (drop 12 buf) x"
    and "\<not> first_label_star e" "rip_prefix (drop 12 buf) e"
    and "strlen (name e) \<le> MAX_NAME_LEN"
  shows "\<exists>buf'. process_packet pf (xs @ e # ys) conf_ttl buf
               = Some (int (2 * n + 28 + (strlen (name e) + 1)), buf')
           \<and> take 2 (drop (2 * n + 26) buf') = be16 (of_nat (strlen (name e) + 1))
           \<and> take (strlen (name e) + 1) (drop (2 * n + 28) buf') = cstr (name e) @ [0]"
proof -
  have t: "get16 buf (13 + n) = REQ_A \<or> get16 buf (13 + n) = REQ_PTR" using assms(9) by simp
  have m: "\<forall>x\<in>set xs. \<not> matches (get16 buf (13 + n)) (drop 12 buf) x"
    "matches (get16 buf (13 + n)) (drop 12 buf) e"
    using assms(9-12) by (auto simp: matches_iff)
  have r: "rdata_of (get16 buf (13 + n)) e = cstr (name e) @ [0]"
    using assms(9) by (simp add: rdata_of_def)
  have lr: "length (cstr (name e) @ [0]) = strlen (name e) + 1" by (simp add: strlen_def)
  have "length (rdata_of (get16 buf (13 + n)) e) \<le> 31"
    using assms(13) by (simp add: r strlen_def MAX_NAME_LEN_def IP_STRING_LEN_def)
  from process_packet_first_match [OF assms(1-5) t assms(6-8) m this, of ys conf_ttl]
  show ?thesis by (simp only: r lr)
qed

text \<open>
  C1 (amended). On a little-endian target with 4-byte pointers, for a query that is not
  dropped and has class 1 and opcode 0. Forward: when an entry's name equals the query
  name ignoring case and no entry before it has such a name or a name beginning with
  the label \<^verbatim>\<open>*\<close>, the reply carries the length 4 and, as resource data, the four
  bytes of that entry's address in network order. Reverse: when an entry's
  reversed-address string is a prefix of the query name, its name does not begin with
  \<^verbatim>\<open>*\<close> and fits the answer array, and every entry before it either begins with
  \<^verbatim>\<open>*\<close> or has no such prefix, the resource data is that entry's label-encoded name
  with its terminator, and the length field counts both. An entry named \<^verbatim>\<open>*\<close> gives
  no reverse answer (the counterexample).
\<close>

theorem answer_data:
  assumes "sizeof_ptr pf = 4" "\<not> big_endian pf"
    and "get16 buf 4 \<noteq> 0" "get16 buf 2 AND 0x8000 = 0"
    and "strlen_at buf 12 = Some n"
    and "get16 buf (15 + n) = 1" "get16 buf 2 AND 0x7800 = 0"
    and "2 * n + 59 \<le> length buf"
  shows "(get16 buf (13 + n) = REQ_A
            \<and> (\<forall>x\<in>set xs. \<not> first_label_star x \<and> \<not> name_equal (drop 12 buf) x)
            \<and> name_equal (drop 12 buf) e
          \<longrightarrow> (\<exists>buf'. process_packet pf (xs @ e # ys) conf_ttl buf = Some (int (2 * n + 32), buf')
                 \<and> take 2 (drop (2 * n + 26) buf') = be16 4
                 \<and> take 4 (drop (2 * n + 28) buf') = be32 (ip e)))
       \<and> (get16 buf (13 + n) = REQ_PTR
            \<and> (\<forall>x\<in>set xs. first_label_star x \<or> \<not> rip_prefix (drop 12 buf) x)
            \<and> \<not> first_label_star e \<and> rip_prefix (drop 12 buf) e
            \<and> strlen (name e) \<le> MAX_NAME_LEN
          \<longrightarrow> (\<exists>buf'. process_packet pf (xs @ e # ys) conf_ttl buf
                       = Some (int (2 * n + 28 + (strlen (name e) + 1)), buf')
                 \<and> take 2 (drop (2 * n + 26) buf') = be16 (of_nat (strlen (name e) + 1))
                 \<and> take (strlen (name e) + 1) (drop (2 * n + 28) buf') = cstr (name e) @ [0]))"
proof (intro conjI impI)
  assume a: "get16 buf (13 + n) = REQ_A
            \<and> (\<forall>x\<in>set xs. \<not> first_label_star x \<and> \<not> name_equal (drop 12 buf) x)
            \<and> name_equal (drop 12 buf) e"
  then have "first_label_star e \<or> name_equal (drop 12 buf) e" by simp
  with a first_match_forward [OF assms, of xs e ys conf_ttl]
  show "\<exists>buf'. process_packet pf (xs @ e # ys) conf_ttl buf = Some (int (2 * n + 32), buf')
                 \<and> take 2 (drop (2 * n + 26) buf') = be16 4
                 \<and> take 4 (drop (2 * n + 28) buf') = be32 (ip e)"
    by blast
next
  assume a: "get16 buf (13 + n) = REQ_PTR
            \<and> (\<forall>x\<in>set xs. first_label_star x \<or> \<not> rip_prefix (drop 12 buf) x)
            \<and> \<not> first_label_star e \<and> rip_prefix (drop 12 buf) e
            \<and> strlen (name e) \<le> MAX_NAME_LEN"
  with first_match_reverse [OF assms, of xs e ys conf_ttl]
  show "\<exists>buf'. process_packet pf (xs @ e # ys) conf_ttl buf
                       = Some (int (2 * n + 28 + (strlen (name e) + 1)), buf')
                 \<and> take 2 (drop (2 * n + 26) buf') = be16 (of_nat (strlen (name e) + 1))
                 \<and> take (strlen (name e) + 1) (drop (2 * n + 28) buf') = cstr (name e) @ [0]"
    by blast
qed

theorem answer_data_witness:
  "(\<exists>buf'. process_packet ilp32_le ([e_bar] @ e_foo # [e_foo2]) DEFAULT_TTL (request 0x0100 q_FOO 1)
                = Some (int (2 * 16 + 32), buf')
           \<and> take 2 (drop (2 * 16 + 26) buf') = be16 4
           \<and> take 4 (drop (2 * 16 + 28) buf') = be32 (ip e_foo))
   \<and> (\<exists>buf'. process_packet ilp32_le ([e_star] @ e_foo # [e_alias]) DEFAULT_TTL (request 0x0100 q_rev 12)
                = Some (int (2 * 22 + 28 + (strlen (name e_foo) + 1)), buf')
           \<and> take 2 (drop (2 * 22 + 26) buf') = be16 (of_nat (strlen (name e_foo) + 1))
           \<and> take (strlen (name e_foo) + 1) (drop (2 * 22 + 28) buf') = cstr (name e_foo) @ [0])"
proof -
  have p: "sizeof_ptr ilp32_le = 4" "\<not> big_endian ilp32_le" by code_simp+
  have f: "get16 (request 0x0100 q_FOO 1) 4 \<noteq> 0" "get16 (request 0x0100 q_FOO 1) 2 AND 0x8000 = 0"
    "strlen_at (request 0x0100 q_FOO 1) 12 = Some 16"
    "get16 (request 0x0100 q_FOO 1) (15 + 16) = 1" "get16 (request 0x0100 q_FOO 1) 2 AND 0x7800 = 0"
    "2 * 16 + 59 \<le> length (request 0x0100 q_FOO 1)"
    by code_simp+
  have r: "get16 (request 0x0100 q_rev 12) 4 \<noteq> 0" "get16 (request 0x0100 q_rev 12) 2 AND 0x8000 = 0"
    "strlen_at (request 0x0100 q_rev 12) 12 = Some 22"
    "get16 (request 0x0100 q_rev 12) (15 + 22) = 1" "get16 (request 0x0100 q_rev 12) 2 AND 0x7800 = 0"
    "2 * 22 + 59 \<le> length (request 0x0100 q_rev 12)"
    by code_simp+
  have fa: "get16 (request 0x0100 q_FOO 1) (13 + 16) = REQ_A
            \<and> (\<forall>x\<in>set [e_bar]. \<not> first_label_star x \<and> \<not> name_equal (drop 12 (request 0x0100 q_FOO 1)) x)
            \<and> name_equal (drop 12 (request 0x0100 q_FOO 1)) e_foo"
    by code_simp
  have ra: "get16 (request 0x0100 q_rev 12) (13 + 22) = REQ_PTR
            \<and> (\<forall>x\<in>set [e_star]. first_label_star x \<or> \<not> rip_prefix (drop 12 (request 0x0100 q_rev 12)) x)
            \<and> \<not> first_label_star e_foo \<and> rip_prefix (drop 12 (request 0x0100 q_rev 12)) e_foo
            \<and> strlen (name e_foo) \<le> MAX_NAME_LEN"
    by code_simp
  from answer_data [OF p f, where xs = "[e_bar]" and e = e_foo and ys = "[e_foo2]" and conf_ttl = DEFAULT_TTL] fa
  have 1: "\<exists>buf'. process_packet ilp32_le ([e_bar] @ e_foo # [e_foo2]) DEFAULT_TTL (request 0x0100 q_FOO 1)
                = Some (int (2 * 16 + 32), buf')
           \<and> take 2 (drop (2 * 16 + 26) buf') = be16 4
           \<and> take 4 (drop (2 * 16 + 28) buf') = be32 (ip e_foo)"
    by blast
  from answer_data [OF p r, where xs = "[e_star]" and e = e_foo and ys = "[e_alias]" and conf_ttl = DEFAULT_TTL] ra
  have 2: "\<exists>buf'. process_packet ilp32_le ([e_star] @ e_foo # [e_alias]) DEFAULT_TTL (request 0x0100 q_rev 12)
                = Some (int (2 * 22 + 28 + (strlen (name e_foo) + 1)), buf')
           \<and> take 2 (drop (2 * 22 + 26) buf') = be16 (of_nat (strlen (name e_foo) + 1))
           \<and> take (strlen (name e_foo) + 1) (drop (2 * 22 + 28) buf') = cstr (name e_foo) @ [0]"
    by blast
  from 1 2 show ?thesis by (rule conjI)
qed

text \<open>
  A reverse query whose name begins with the reversed-address string of the table's
  entry, which is named \<^verbatim>\<open>*\<close>: the reply is header and question with RCODE 3 and no
  answer.
\<close>

theorem reverse_key_unanswered_counterexample:
  "rip_prefix (drop 12 (request 0x0100 q_rev 12)) e_star
   \<and> get16 (request 0x0100 q_rev 12) 2 AND 0x7800 = 0
   \<and> process_packet ilp32_le [e_star] DEFAULT_TTL (request 0x0100 q_rev 12)
       = Some (39, request 0x8503 q_rev 12)"
  by code_simp

text \<open>
  C3 (amended). An entry whose name begins with the one-byte label \<^verbatim>\<open>*\<close> answers
  every forward query that reaches it, whatever name is asked for: when no entry before
  it passes the forward test, the reply carries its address. For a reverse query the
  wildcard test is made on the name, not on the reversed address, and it excludes the
  entry: the lookup and the reply are those of the table without it.
\<close>

theorem wildcard_entry:
  assumes "sizeof_ptr pf = 4" "\<not> big_endian pf"
    and "get16 buf 4 \<noteq> 0" "get16 buf 2 AND 0x8000 = 0"
    and "strlen_at buf 12 = Some n"
    and "get16 buf (15 + n) = 1" "get16 buf 2 AND 0x7800 = 0"
    and "2 * n + 59 \<le> length buf"
    and "first_label_star e"
  shows "(get16 buf (13 + n) = REQ_A
            \<and> (\<forall>x\<in>set xs. \<not> first_label_star x \<and> \<not> name_equal (drop 12 buf) x)
          \<longrightarrow> (\<exists>buf'. process_packet pf (xs @ e # ys) conf_ttl buf = Some (int (2 * n + 32), buf')
                 \<and> take 2 (drop (2 * n + 26) buf') = be16 4
                 \<and> take 4 (drop (2 * n + 28) buf') = be32 (ip e)))
       \<and> (get16 buf (13 + n) = REQ_PTR
          \<longrightarrow> table_lookup (MAX_NAME_LEN + 1) (xs @ e # ys) REQ_PTR (drop 12 buf)
                = table_lookup (MAX_NAME_LEN + 1) (xs @ ys) REQ_PTR (drop 12 buf)
              \<and> process_packet pf (xs @ e # ys) conf_ttl buf = process_packet pf (xs @ ys) conf_ttl buf)"
proof (intro conjI impI)
  assume a: "get16 buf (13 + n) = REQ_A
            \<and> (\<forall>x\<in>set xs. \<not> first_label_star x \<and> \<not> name_equal (drop 12 buf) x)"
  from assms(9) have "first_label_star e \<or> name_equal (drop 12 buf) e" by simp
  with a first_match_forward [OF assms(1-8), of xs e ys conf_ttl]
  show "\<exists>buf'. process_packet pf (xs @ e # ys) conf_ttl buf = Some (int (2 * n + 32), buf')
                 \<and> take 2 (drop (2 * n + 26) buf') = be16 4
                 \<and> take 4 (drop (2 * n + 28) buf') = be32 (ip e)"
    by blast
next
  assume "get16 buf (13 + n) = REQ_PTR"
  show "table_lookup (MAX_NAME_LEN + 1) (xs @ e # ys) REQ_PTR (drop 12 buf)
                = table_lookup (MAX_NAME_LEN + 1) (xs @ ys) REQ_PTR (drop 12 buf)"
    using assms(9) by (intro table_lookup_skip_star) simp_all
next
  assume t: "get16 buf (13 + n) = REQ_PTR"
  show "process_packet pf (xs @ e # ys) conf_ttl buf = process_packet pf (xs @ ys) conf_ttl buf"
  proof (rule process_packet_cong_lookup)
    fix k assume "strlen_at buf 12 = Some k"
    with assms(5) have "k = n" by simp
    with t assms(9) show "table_lookup (MAX_NAME_LEN + 1) (xs @ e # ys) (get16 buf (13 + k)) (drop 12 buf)
             = table_lookup (MAX_NAME_LEN + 1) (xs @ ys) (get16 buf (13 + k)) (drop 12 buf)"
      by (intro table_lookup_skip_star) simp_all
  qed
qed

theorem wildcard_entry_witness:
  "(\<exists>buf'. process_packet ilp32_le ([e_bar] @ e_star # [e_foo2]) DEFAULT_TTL (request 0x0100 q_foo 1)
                = Some (int (2 * 16 + 32), buf')
           \<and> take 2 (drop (2 * 16 + 26) buf') = be16 4
           \<and> take 4 (drop (2 * 16 + 28) buf') = be32 (ip e_star))
   \<and> table_lookup (MAX_NAME_LEN + 1) ([] @ e_star # [e_foo]) REQ_PTR (drop 12 (request 0x0100 q_rev 12))
       = table_lookup (MAX_NAME_LEN + 1) ([] @ [e_foo]) REQ_PTR (drop 12 (request 0x0100 q_rev 12))
   \<and> process_packet ilp32_le ([] @ e_star # [e_foo]) DEFAULT_TTL (request 0x0100 q_rev 12)
       = process_packet ilp32_le ([] @ [e_foo]) DEFAULT_TTL (request 0x0100 q_rev 12)"
proof -
  have p: "sizeof_ptr ilp32_le = 4" "\<not> big_endian ilp32_le" by code_simp+
  have f: "get16 (request 0x0100 q_foo 1) 4 \<noteq> 0" "get16 (request 0x0100 q_foo 1) 2 AND 0x8000 = 0"
    "strlen_at (request 0x0100 q_foo 1) 12 = Some 16"
    "get16 (request 0x0100 q_foo 1) (15 + 16) = 1" "get16 (request 0x0100 q_foo 1) 2 AND 0x7800 = 0"
    "2 * 16 + 59 \<le> length (request 0x0100 q_foo 1)"
    by code_simp+
  have r: "get16 (request 0x0100 q_rev 12) 4 \<noteq> 0" "get16 (request 0x0100 q_rev 12) 2 AND 0x8000 = 0"
    "strlen_at (request 0x0100 q_rev 12) 12 = Some 22"
    "get16 (request 0x0100 q_rev 12) (15 + 22) = 1" "get16 (request 0x0100 q_rev 12) 2 AND 0x7800 = 0"
    "2 * 22 + 59 \<le> length (request 0x0100 q_rev 12)"
    by code_simp+
  have s: "first_label_star e_star" by code_simp
  have fa: "get16 (request 0x0100 q_foo 1) (13 + 16) = REQ_A
            \<and> (\<forall>x\<in>set [e_bar]. \<not> first_label_star x \<and> \<not> name_equal (drop 12 (request 0x0100 q_foo 1)) x)"
    by code_simp
  have ra: "get16 (request 0x0100 q_rev 12) (13 + 22) = REQ_PTR" by code_simp
  from wildcard_entry [OF p f s, where xs = "[e_bar]" and ys = "[e_foo2]" and conf_ttl = DEFAULT_TTL] fa
  have 1: "\<exists>buf'. process_packet ilp32_le ([e_bar] @ e_star # [e_foo2]) DEFAULT_TTL (request 0x0100 q_foo 1)
                = Some (int (2 * 16 + 32), buf')
           \<and> take 2 (drop (2 * 16 + 26) buf') = be16 4
           \<and> take 4 (drop (2 * 16 + 28) buf') = be32 (ip e_star)"
    by blast
  from wildcard_entry [OF p r s, where xs = "[]" and ys = "[e_foo]" and conf_ttl = DEFAULT_TTL] ra
  have 2: "table_lookup (MAX_NAME_LEN + 1) ([] @ e_star # [e_foo]) REQ_PTR (drop 12 (request 0x0100 q_rev 12))
       = table_lookup (MAX_NAME_LEN + 1) ([] @ [e_foo]) REQ_PTR (drop 12 (request 0x0100 q_rev 12))
   \<and> process_packet ilp32_le ([] @ e_star # [e_foo]) DEFAULT_TTL (request 0x0100 q_rev 12)
       = process_packet ilp32_le ([] @ [e_foo]) DEFAULT_TTL (request 0x0100 q_rev 12)"
    by blast
  from 1 2 show ?thesis by (rule conjI)
qed

text \<open>
  A table whose only entry is named \<^verbatim>\<open>*\<close>: a reverse query is not found, and the
  reply is the name error with no answer.
\<close>

theorem wildcard_reverse_counterexample:
  "first_label_star e_star
   \<and> table_lookup (MAX_NAME_LEN + 1) [e_star] REQ_PTR (drop 12 (request 0 q_rev 12)) = Some (- 1, [])
   \<and> process_packet ilp32_le [e_star] DEFAULT_TTL (request 0 q_rev 12) = Some (39, request 0x8403 q_rev 12)"
  by code_simp

end
